theory Spec2Isabelle
  imports Main
begin

section \<open>JSON values\<close>

text \<open>
  A value as \<^verbatim>\<open>JSON.parse\<close> returns it. A number is a double, \<open>m * 2^e\<close> for
  integers \<open>m\<close> and \<open>e\<close>, or an infinity (which a literal such as \<^verbatim>\<open>1e999\<close> denotes).
  An object is the list of its own properties, looked up by name; the first entry for a
  name is the property.
\<close>

datatype number = Finite int int | Infinite

datatype json =
    JNull
  | JBool bool
  | JNumber number
  | JString string
  | JArray "json list"
  | JObject "(string \<times> json) list"

text \<open>JavaScript's conversion to a boolean, as \<^verbatim>\<open>||\<close> and \<^verbatim>\<open>!\<close> apply it.\<close>

fun truthy :: "json \<Rightarrow> bool" where
  "truthy JNull = False"
| "truthy (JBool b) = b"
| "truthy (JNumber (Finite m e)) = (m \<noteq> 0)"
| "truthy (JNumber Infinite) = True"
| "truthy (JString s) = (s \<noteq> '''')"
| "truthy (JArray xs) = True"
| "truthy (JObject ps) = True"

text \<open>
  The property named \<open>k\<close> of a value other than \<^verbatim>\<open>null\<close>, \<open>None\<close> for
  \<^verbatim>\<open>undefined\<close>. The names this program reads (\<^verbatim>\<open>chapters\<close>, \<^verbatim>\<open>metadata\<close>,
  \<^verbatim>\<open>id\<close>, \<^verbatim>\<open>title\<close>, \<^verbatim>\<open>description\<close>, \<^verbatim>\<open>author\<close>, \<^verbatim>\<open>genre\<close>,
  \<^verbatim>\<open>summary\<close>, \<^verbatim>\<open>language\<close>) are no properties of a boolean, a number, a string or
  an array, own or inherited, and no inherited properties of an object. The same holds of
  what an object spread copies, which for \<^verbatim>\<open>null\<close> is nothing; reading a property of
  \<^verbatim>\<open>null\<close> throws, and the reader decides that case before it calls \<open>property\<close>.
\<close>

fun property :: "string \<Rightarrow> json \<Rightarrow> json option" where
  "property k (JObject ps) = map_of ps k"
| "property k v = None"

section \<open>Data model (types.ts)\<close>

text \<open>
  TypeScript types are erased at run time, and the book outline comes unchecked out of
  \<^verbatim>\<open>JSON.parse\<close>. A property that may be absent from an object is therefore an
  \<open>option\<close>, with \<open>None\<close> for JavaScript's \<^verbatim>\<open>undefined\<close>, and a property copied
  from the outline holds whatever JSON value the outline has there. Record fields keep the
  names of types.ts; \<open>id\<close>, \<open>title\<close> and \<open>status\<close> of a chapter carry the suffix
  \<open>_ch\<close> because the plain names are taken.
\<close>

datatype LoadingState = IDLE | PARSING | PLANNING | WRITING | GENERATING_COVER | ERROR | SUCCESS

datatype ChapterStatus = ChPending | ChGenerating | ChCompleted | ChError

datatype StepStatus = StPending | StProcessing | StCompleted | StError

record Chapter =
  id_ch :: "json option"
  title_ch :: "json option"
  description :: "json option"
  content :: "string option"
  status_ch :: ChapterStatus
  pageStart :: "nat option"

record BookMetadata =
  title :: "json option"
  author :: "json option"
  genre :: "json option"
  summary :: "json option"
  language :: "json option"

text \<open>
  An entry of \<open>chapters\<close> is \<open>None\<close> where the JavaScript array has no element
  (a slot left empty by an assignment beyond the end).
\<close>

record Book =
  metadata :: BookMetadata
  chapters :: "Chapter option list"
  coverUrl :: "string option"
  rawText :: "string option"

record ProcessingStep =
  label :: string
  status :: StepStatus

text \<open>A thrown value: an \<^verbatim>\<open>Error\<close> with its message, or an object with none.\<close>

datatype error = Error (message: "string option")

text \<open>
  The places at which the program can raise a \<^verbatim>\<open>TypeError\<close>: reading
  \<^verbatim>\<open>structure.chapters\<close> of \<^verbatim>\<open>null\<close>, calling \<^verbatim>\<open>map\<close> on a value that has no
  such method, reading \<^verbatim>\<open>candidates[0].content\<close> of \<^verbatim>\<open>undefined\<close>. The wording of
  the message is the JavaScript engine's.
\<close>

datatype fault = ChaptersOfNull | MapNotAFunction | ContentOfUndefined

record File =
  name_f :: string
  type_f :: string

section \<open>The outside world\<close>

text \<open>
  The text of the planning response: absent or empty, not JSON (\<^verbatim>\<open>JSON.parse\<close>
  throws the given error), or the text of a JSON value, which \<^verbatim>\<open>JSON.parse\<close> returns.
  The schema is sent with the request; nothing in the program compares the value with it.
\<close>

datatype PlanText = NoText | Unparsable error | Parsed json

text \<open>
  A request is represented by the values its prompt template interpolates.
  Planning: the length of the manuscript, the file name, the first 1000000 characters.
  Writing: chapter title, book title, whether the language is Arabic, chapter
  description, the first 1000000 characters of the manuscript.
  Cover: title, author, genre, summary.
\<close>

datatype PlanRequest = PlanRequest nat string string

datatype WriteRequest = WriteRequest "json option" "json option" bool json string

datatype CoverRequest = CoverRequest "json option" "json option" json "json option"

text \<open>
  The image response: \<^verbatim>\<open>response.candidates\<close>, each candidate's \<^verbatim>\<open>content\<close>,
  its \<^verbatim>\<open>parts\<close>, each part's \<^verbatim>\<open>inlineData\<close> and the \<^verbatim>\<open>data\<close> of that; every
  level may be absent.
\<close>

record InlineData =
  data :: "string option"

record Part =
  inlineData :: "InlineData option"

type_synonym Candidate = "Part list option option"

type_synonym CoverResponse = "Candidate list option"

text \<open>
  The services the program calls. Each call either rejects (\<open>Inl\<close>) or settles with a
  value. The writing model is indexed by the chapter's position, so that equal requests
  may receive different answers. \<open>typeError\<close> is the message the JavaScript engine gives
  a \<^verbatim>\<open>TypeError\<close>.
\<close>

record services =
  readAsArrayBuffer :: "File \<Rightarrow> error + string"
  mammoth :: "(string \<Rightarrow> error + string) option"
  planModel :: "PlanRequest \<Rightarrow> error + PlanText"
  writeModel :: "nat \<Rightarrow> WriteRequest \<Rightarrow> error + string option"
  coverModel :: "CoverRequest \<Rightarrow> error + CoverResponse"
  typeError :: "fault \<Rightarrow> string"

section \<open>services/documentParser.ts\<close>

definition parseDocx :: "services \<Rightarrow> File \<Rightarrow> error + string" where
  "parseDocx env file =
     (case readAsArrayBuffer env file of
        Inl err \<Rightarrow> Inl err
      | Inr arrayBuffer \<Rightarrow>
          (case mammoth env of
             None \<Rightarrow> Inl (Error (Some ''Mammoth.js library not loaded''))
           | Some extractRawText \<Rightarrow>
               (case extractRawText arrayBuffer of
                  Inl err \<Rightarrow> Inl err
                | Inr v \<Rightarrow> Inr v)))"

section \<open>services/geminiService.ts\<close>

definition generateBookStructure ::
  "(PlanRequest \<Rightarrow> error + PlanText) \<Rightarrow> string \<Rightarrow> string \<Rightarrow> error + json" where
  "generateBookStructure ai raw fileName =
     (case ai (PlanRequest (length raw) fileName (take 1000000 raw)) of
        Inl err \<Rightarrow> Inl err
      | Inr NoText \<Rightarrow> Inl (Error (Some ''No response from AI''))
      | Inr (Unparsable err) \<Rightarrow> Inl err
      | Inr (Parsed structure) \<Rightarrow> Inr structure)"

definition generateChapterContent ::
  "(WriteRequest \<Rightarrow> error + string option) \<Rightarrow> json option \<Rightarrow> json \<Rightarrow> string \<Rightarrow>
   BookMetadata \<Rightarrow> error + string" where
  "generateChapterContent ai chapterTitle chapterDescription fullManuscript bookMetadata =
     (let isArabic = (language bookMetadata = Some (JString ''ar'')) in
      case ai (WriteRequest chapterTitle (title bookMetadata) isArabic chapterDescription
                 (take 1000000 fullManuscript)) of
        Inl err \<Rightarrow> Inl err
      | Inr text \<Rightarrow> Inr (case text of None \<Rightarrow> '''' | Some t \<Rightarrow> t))"

text \<open>
  The loop of \<^verbatim>\<open>generateBookCover\<close> over the parts: \<^verbatim>\<open>base64Image\<close>, initially
  the empty string, becomes the \<^verbatim>\<open>data\<close> of the first part that has \<^verbatim>\<open>inlineData\<close>,
  which may be \<^verbatim>\<open>undefined\<close>, and the loop ends there.
\<close>

fun firstInlineData :: "Part list \<Rightarrow> string option" where
  "firstInlineData [] = Some ''''"
| "firstInlineData (part # ps) =
     (case inlineData part of
        Some d \<Rightarrow> data d
      | None \<Rightarrow> firstInlineData ps)"

text \<open>
  With an empty list of candidates, reading \<^verbatim>\<open>candidates[0].content\<close> throws a
  \<^verbatim>\<open>TypeError\<close>. \<open>tm\<close> gives the engine's message for it.
\<close>

definition generateBookCover ::
  "(fault \<Rightarrow> string) \<Rightarrow> (CoverRequest \<Rightarrow> error + CoverResponse) \<Rightarrow> BookMetadata \<Rightarrow>
   error + string" where
  "generateBookCover tm ai md =
     (case ai (CoverRequest (title md) (author md)
                 (case genre md of None \<Rightarrow> JString ''General Non-Fiction''
                  | Some g \<Rightarrow> if truthy g then g else JString ''General Non-Fiction'')
                 (summary md)) of
        Inl err \<Rightarrow> Inl err
      | Inr None \<Rightarrow> Inl (Error (Some ''Failed to generate image''))
      | Inr (Some []) \<Rightarrow> Inl (Error (Some (tm ContentOfUndefined)))
      | Inr (Some (candidate # _)) \<Rightarrow>
          (let base64Image =
                 (case candidate of
                    Some (Some parts) \<Rightarrow> firstInlineData parts
                  | _ \<Rightarrow> Some '''')
           in case base64Image of
                None \<Rightarrow> Inl (Error (Some ''Failed to generate image''))
              | Some d \<Rightarrow>
                  if d = '''' then Inl (Error (Some ''Failed to generate image''))
                  else Inr (''data:image/png;base64,'' @ d)))"

section \<open>App.tsx: component state and its updates\<close>

text \<open>
  The state of the component: the six \<^verbatim>\<open>useState\<close> cells and the \<^verbatim>\<open>useRef\<close> cell.
\<close>

record app =
  loadingState :: LoadingState
  steps :: "ProcessingStep list"
  book :: "Book option"
  activeChapterId :: "json option"
  isGeneratingCover :: bool
  errorMsg :: "string option"
  abortRef :: bool

definition INITIAL_STEPS :: "ProcessingStep list" where
  "INITIAL_STEPS =
     [\<lparr>label = ''Reading manuscript'', status = StPending\<rparr>,
      \<lparr>label = ''Analyzing structure & removing duplicates'', status = StPending\<rparr>,
      \<lparr>label = ''Planning chapters (Table of Contents)'', status = StPending\<rparr>,
      \<lparr>label = ''Writing content chapter by chapter'', status = StPending\<rparr>]"

definition initialApp :: app where
  "initialApp =
     \<lparr>loadingState = IDLE, steps = INITIAL_STEPS, book = None, activeChapterId = None,
      isGeneratingCover = False, errorMsg = None, abortRef = False\<rparr>"

text \<open>
  \<^verbatim>\<open>prev.map((step, i) => i === index ? { ...step, status } : step)\<close>
\<close>

definition updateStepStatus :: "nat \<Rightarrow> StepStatus \<Rightarrow> ProcessingStep list \<Rightarrow> ProcessingStep list" where
  "updateStepStatus index st prev =
     map (\<lambda>(i, step). if i = index then step\<lparr>status := st\<rparr> else step)
       (zip [0..<length prev] prev)"

text \<open>
  JavaScript arrays: reading beyond the end gives \<^verbatim>\<open>undefined\<close>; assigning beyond
  the end extends the array, leaving the slots in between empty.
\<close>

definition arrayGet :: "'a option list \<Rightarrow> nat \<Rightarrow> 'a option" where
  "arrayGet xs i = (if i < length xs then xs ! i else None)"

definition arraySet :: "'a option list \<Rightarrow> nat \<Rightarrow> 'a \<Rightarrow> 'a option list" where
  "arraySet xs i v =
     (if i < length xs then xs[i := Some v]
      else xs @ replicate (i - length xs) None @ [Some v])"

text \<open>
  \<^verbatim>\<open>{ ...updated[i], status: s }\<close> and \<^verbatim>\<open>{ ...updated[i], status: s, content: c }\<close>:
  spreading \<^verbatim>\<open>undefined\<close> contributes no property.
\<close>

definition spreadStatus :: "Chapter option \<Rightarrow> ChapterStatus \<Rightarrow> Chapter" where
  "spreadStatus slot st =
     (case slot of
        Some c \<Rightarrow> c\<lparr>status_ch := st\<rparr>
      | None \<Rightarrow> \<lparr>id_ch = None, title_ch = None, description = None, content = None,
                 status_ch = st, pageStart = None\<rparr>)"

definition spreadStatusContent :: "Chapter option \<Rightarrow> ChapterStatus \<Rightarrow> string \<Rightarrow> Chapter" where
  "spreadStatusContent slot st text = (spreadStatus slot st)\<lparr>content := Some text\<rparr>"

text \<open>The three functional updates of the book in \<^verbatim>\<open>processChapters\<close>.\<close>

definition markGenerating :: "nat \<Rightarrow> Book option \<Rightarrow> Book option" where
  "markGenerating i prev =
     (case prev of
        None \<Rightarrow> None
      | Some b \<Rightarrow>
          (let updated = chapters b in
           Some (b\<lparr>chapters := arraySet updated i (spreadStatus (arrayGet updated i) ChGenerating)\<rparr>)))"

definition markCompleted :: "nat \<Rightarrow> string \<Rightarrow> Book option \<Rightarrow> Book option" where
  "markCompleted i text prev =
     (case prev of
        None \<Rightarrow> None
      | Some b \<Rightarrow>
          (let updated = chapters b in
           Some (b\<lparr>chapters :=
                     arraySet updated i (spreadStatusContent (arrayGet updated i) ChCompleted text)\<rparr>)))"

definition errorPlaceholder :: string where
  "errorPlaceholder = ''Error generating content.''"

definition markError :: "nat \<Rightarrow> Book option \<Rightarrow> Book option" where
  "markError i prev =
     (case prev of
        None \<Rightarrow> None
      | Some b \<Rightarrow>
          (let updated = chapters b in
           Some (b\<lparr>chapters :=
                     arraySet updated i
                       (spreadStatusContent (arrayGet updated i) ChError errorPlaceholder)\<rparr>)))"

text \<open>\<^verbatim>\<open>setBook(prev => prev ? { ...prev, coverUrl: url } : null)\<close>\<close>

definition withCover :: "string \<Rightarrow> Book option \<Rightarrow> Book option" where
  "withCover url prev = (case prev of None \<Rightarrow> None | Some b \<Rightarrow> Some (b\<lparr>coverUrl := Some url\<rparr>))"

text \<open>
  The asynchronous functions modelled here never read the component's state: they only enqueue
  updates, by value or by a function of the previous value. An update is a value of
  \<open>action\<close>; React applies the updates in the order in which they were enqueued.
\<close>

datatype action =
    SetLoadingState LoadingState
  | SetErrorMsg "string option"
  | SetBook "Book option"
  | SetSteps "ProcessingStep list"
  | UpdateStepStatus nat StepStatus
  | SetActiveChapterId "json option"
  | SetIsGeneratingCover bool
  | MarkGenerating nat
  | MarkCompleted nat string
  | MarkError nat
  | SetCoverUrl string

fun applyAction :: "action \<Rightarrow> app \<Rightarrow> app" where
  "applyAction (SetLoadingState l) s = s\<lparr>loadingState := l\<rparr>"
| "applyAction (SetErrorMsg m) s = s\<lparr>errorMsg := m\<rparr>"
| "applyAction (SetBook b) s = s\<lparr>book := b\<rparr>"
| "applyAction (SetSteps xs) s = s\<lparr>steps := xs\<rparr>"
| "applyAction (UpdateStepStatus index st) s = s\<lparr>steps := updateStepStatus index st (steps s)\<rparr>"
| "applyAction (SetActiveChapterId c) s = s\<lparr>activeChapterId := c\<rparr>"
| "applyAction (SetIsGeneratingCover g) s = s\<lparr>isGeneratingCover := g\<rparr>"
| "applyAction (MarkGenerating i) s = s\<lparr>book := markGenerating i (book s)\<rparr>"
| "applyAction (MarkCompleted i text) s = s\<lparr>book := markCompleted i text (book s)\<rparr>"
| "applyAction (MarkError i) s = s\<lparr>book := markError i (book s)\<rparr>"
| "applyAction (SetCoverUrl url) s = s\<lparr>book := withCover url (book s)\<rparr>"

text \<open>The state after a sequence of updates, and every state on the way.\<close>

fun exec :: "action list \<Rightarrow> app \<Rightarrow> app" where
  "exec [] s = s"
| "exec (a # as) s = exec as (applyAction a s)"

fun trace :: "action list \<Rightarrow> app \<Rightarrow> app list" where
  "trace [] s = [s]"
| "trace (a # as) s = s # trace as (applyAction a s)"

section \<open>App.tsx: the asynchronous functions\<close>

text \<open>
  An asynchronous function is the sequence of updates it enqueues, computed from its
  arguments and from what the services answer. Between two updates separated by an
  \<^verbatim>\<open>await\<close>, updates of other functions may be applied.
\<close>

text \<open>
  \<^verbatim>\<open>generateCover\<close>: the first update is enqueued at the call, the updates of
  \<open>coverSettled\<close> when the image request has settled.
\<close>

definition coverSettled :: "services \<Rightarrow> Book \<Rightarrow> action list" where
  "coverSettled env bookData =
     (case generateBookCover (typeError env) (coverModel env) (metadata bookData) of
        Inr url \<Rightarrow> [SetCoverUrl url]
      | Inl e \<Rightarrow> [])
     @ [SetIsGeneratingCover False]"


text \<open>
  The \<^verbatim>\<open>for\<close> loop of \<^verbatim>\<open>processChapters\<close> from index \<open>i\<close> on, over the remaining
  elements of \<^verbatim>\<open>chaptersToProcess\<close>; \<open>writeCall\<close> is its call of
  \<^verbatim>\<open>generateChapterContent\<close>. On an empty slot, \<^verbatim>\<open>chapter.title\<close> throws
  inside \<^verbatim>\<open>try\<close>, \<^verbatim>\<open>chapter.id\<close> throws again inside \<^verbatim>\<open>catch\<close>, and the function
  ends there.
\<close>

definition writeCall :: "services \<Rightarrow> string \<Rightarrow> BookMetadata \<Rightarrow> nat \<Rightarrow> Chapter \<Rightarrow> error + string" where
  "writeCall env raw md i chapter =
     generateChapterContent (writeModel env i) (title_ch chapter)
       (case description chapter of
          None \<Rightarrow> JString ''''
        | Some d \<Rightarrow> if truthy d then d else JString '''') raw md"

fun writeLoop :: "services \<Rightarrow> string \<Rightarrow> BookMetadata \<Rightarrow> nat \<Rightarrow> Chapter option list \<Rightarrow> action list" where
  "writeLoop env raw md i [] = [SetLoadingState SUCCESS, UpdateStepStatus 3 StCompleted]"
| "writeLoop env raw md i (None # rest) = [MarkGenerating i]"
| "writeLoop env raw md i (Some chapter # rest) =
     MarkGenerating i
     # (case writeCall env raw md i chapter of
          Inr text \<Rightarrow> MarkCompleted i text
        | Inl err \<Rightarrow> MarkError i)
     # writeLoop env raw md (Suc i) rest"

text \<open>
  \<^verbatim>\<open>processChapters\<close>, with the update \<^verbatim>\<open>generateCover(currentBook)\<close> enqueues at its
  call. If the first slot is empty, \<^verbatim>\<open>chaptersToProcess[0].id\<close> throws before anything
  is enqueued.
\<close>

definition processChapters :: "services \<Rightarrow> Book \<Rightarrow> string \<Rightarrow> action list" where
  "processChapters env currentBook raw =
     (let chaptersToProcess = chapters currentBook in
      case chaptersToProcess of
        None # _ \<Rightarrow> []
      | _ \<Rightarrow>
          (case chaptersToProcess of
             Some c # _ \<Rightarrow> [SetActiveChapterId (id_ch c)]
           | _ \<Rightarrow> [])
          @ [SetIsGeneratingCover True]
          @ writeLoop env raw (metadata currentBook) 0 chaptersToProcess)"

text \<open>
  A run in which the updates \<open>late\<close> of another function are applied after the first
  \<open>p\<close> updates of \<open>acts\<close>.
\<close>

definition settleAt :: "nat \<Rightarrow> action list \<Rightarrow> action list \<Rightarrow> action list" where
  "settleAt p late acts = take p acts @ late @ drop p acts"

text \<open>
  The book \<^verbatim>\<open>handleFileUpload\<close> builds from the outline. \<open>newChapters\<close> is the
  constant \<^verbatim>\<open>chapters\<close> of the source:
  \<^verbatim>\<open>(structure.chapters || []).map((ch, idx) => ({ ...ch, status: 'pending', content: '', pageStart: idx * 15 + 1 }))\<close>.
  Reading \<^verbatim>\<open>structure.chapters\<close> throws when the outline is \<^verbatim>\<open>null\<close>, and the call
  of \<^verbatim>\<open>map\<close> throws when the property is truthy and not an array. The spread copies
  the properties of the element, of which the program reads \<^verbatim>\<open>id\<close>, \<^verbatim>\<open>title\<close> and
  \<^verbatim>\<open>description\<close>.
\<close>

definition newChapter :: "nat \<Rightarrow> json \<Rightarrow> Chapter" where
  "newChapter idx ch =
     \<lparr>id_ch = property ''id'' ch, title_ch = property ''title'' ch,
      description = property ''description'' ch, content = Some '''',
      status_ch = ChPending, pageStart = Some (idx * 15 + 1)\<rparr>"

definition newChapters :: "(fault \<Rightarrow> string) \<Rightarrow> json \<Rightarrow> error + Chapter option list" where
  "newChapters tm structure =
     (case structure of
        JNull \<Rightarrow> Inl (Error (Some (tm ChaptersOfNull)))
      | _ \<Rightarrow>
          (case (case property ''chapters'' structure of
                   None \<Rightarrow> JArray []
                 | Some v \<Rightarrow> if truthy v then v else JArray []) of
             JArray xs \<Rightarrow>
               Inr (map (\<lambda>(idx, ch). Some (newChapter idx ch)) (zip [0..<length xs] xs))
           | _ \<Rightarrow> Inl (Error (Some (tm MapNotAFunction)))))"

text \<open>
  The object the book keeps as its metadata, seen through the properties the program
  reads of it.
\<close>

definition asMetadata :: "json \<Rightarrow> BookMetadata" where
  "asMetadata m =
     \<lparr>title = property ''title'' m, author = property ''author'' m, genre = property ''genre'' m,
      summary = property ''summary'' m, language = property ''language'' m\<rparr>"

definition defaultMetadata :: BookMetadata where
  "defaultMetadata =
     \<lparr>title = Some (JString ''Unknown''), author = Some (JString ''Unknown''), genre = None,
      summary = Some (JString ''''), language = Some (JString ''en'')\<rparr>"

text \<open>
  \<^verbatim>\<open>{ metadata: structure.metadata || {...}, chapters: chapters, rawText: rawText }\<close>
\<close>

definition newBook :: "json \<Rightarrow> Chapter option list \<Rightarrow> string \<Rightarrow> Book" where
  "newBook structure chs raw =
     \<lparr>metadata = (case property ''metadata'' structure of
                    None \<Rightarrow> defaultMetadata
                  | Some m \<Rightarrow> if truthy m then asMetadata m else defaultMetadata),
      chapters = chs,
      coverUrl = None,
      rawText = Some raw\<rparr>"

definition unexpectedError :: string where
  "unexpectedError = ''An unexpected error occurred processing your book.''"

text \<open>The \<^verbatim>\<open>catch\<close> block of \<^verbatim>\<open>handleFileUpload\<close>.\<close>

definition catchUpload :: "error \<Rightarrow> action list" where
  "catchUpload err =
     [SetLoadingState ERROR,
      SetErrorMsg (Some (case message err of
                           None \<Rightarrow> unexpectedError
                         | Some m \<Rightarrow> if m = '''' then unexpectedError else m)),
      UpdateStepStatus 0 StError]"

definition handleFileUpload :: "services \<Rightarrow> File \<Rightarrow> action list" where
  "handleFileUpload env file =
     [SetLoadingState PARSING, SetErrorMsg None, SetBook None, SetSteps INITIAL_STEPS,
      UpdateStepStatus 0 StProcessing]
     @ (case parseDocx env file of
          Inl err \<Rightarrow> catchUpload err
        | Inr raw \<Rightarrow>
            [UpdateStepStatus 0 StCompleted, SetLoadingState PLANNING,
             UpdateStepStatus 1 StProcessing, UpdateStepStatus 2 StProcessing]
            @ (case generateBookStructure (planModel env) raw (name_f file) of
                 Inl err \<Rightarrow> catchUpload err
               | Inr structure \<Rightarrow>
                   (case newChapters (typeError env) structure of
                      Inl err \<Rightarrow> catchUpload err
                    | Inr chs \<Rightarrow>
                        [SetBook (Some (newBook structure chs raw)),
                         UpdateStepStatus 1 StCompleted, UpdateStepStatus 2 StCompleted,
                         SetLoadingState WRITING, UpdateStepStatus 3 StProcessing]
                        @ processChapters env (newBook structure chs raw) raw)))"

text \<open>
  In this sequence the third update is \<^verbatim>\<open>setBook(null)\<close>; when the book has been
  built the tenth is \<^verbatim>\<open>setBook(newBook)\<close> and the fourteenth is the last before the
  updates of \<^verbatim>\<open>processChapters\<close>.
\<close>

text \<open>What the component renders in a state.\<close>

definition showsFileUpload :: "app \<Rightarrow> bool" where
  "showsFileUpload s = (loadingState s = IDLE)"

text \<open>The button ``Try Again'', whose handler sets the stage to IDLE.\<close>

definition showsTryAgain :: "app \<Rightarrow> bool" where
  "showsTryAgain s = (loadingState s = ERROR)"

definition showLoading :: "app \<Rightarrow> bool" where
  "showLoading s = (loadingState s = PARSING \<or> loadingState s = PLANNING)"

definition showEditor :: "app \<Rightarrow> bool" where
  "showEditor s = (loadingState s = WRITING \<or> loadingState s = SUCCESS)"

section \<open>components/FileUpload.tsx\<close>

text \<open>
  What a handler of the upload control does: nothing, a call of \<^verbatim>\<open>onFileSelect\<close>,
  or an alert.
\<close>

datatype uploadEffect = NoEffect | OnFileSelect File | Alert string

definition docxType :: string where
  "docxType = ''application/vnd.openxmlformats-officedocument.wordprocessingml.document''"

definition handleDrop :: "bool \<Rightarrow> File list option \<Rightarrow> uploadEffect" where
  "handleDrop disabled files =
     (if disabled then NoEffect
      else case files of
             Some (file # _) \<Rightarrow>
               if type_f file = docxType then OnFileSelect file
               else Alert ''Please upload a valid .docx Word file.''
           | _ \<Rightarrow> NoEffect)"

definition handleChange :: "bool \<Rightarrow> File list option \<Rightarrow> uploadEffect" where
  "handleChange disabled files =
     (if disabled then NoEffect
      else case files of
             Some (file # _) \<Rightarrow> OnFileSelect file
           | _ \<Rightarrow> NoEffect)"

section \<open>Observing a run\<close>

text \<open>Status and content of the chapter at index \<open>i\<close> of the book on display, if any.\<close>

definition statusAt :: "app \<Rightarrow> nat \<Rightarrow> ChapterStatus option" where
  "statusAt s i =
     (case book s of
        None \<Rightarrow> None
      | Some b \<Rightarrow> map_option status_ch (arrayGet (chapters b) i))"

definition contentAt :: "app \<Rightarrow> nat \<Rightarrow> string option" where
  "contentAt s i =
     (case book s of
        None \<Rightarrow> None
      | Some b \<Rightarrow> (case arrayGet (chapters b) i of None \<Rightarrow> None | Some c \<Rightarrow> content c))"


text \<open>A chapter whose writing has ended, and the moves a status may make in one update.\<close>

definition resolved :: "ChapterStatus option \<Rightarrow> bool" where
  "resolved st = (st = Some ChCompleted \<or> st = Some ChError)"

definition legalMove :: "ChapterStatus option \<Rightarrow> ChapterStatus option \<Rightarrow> bool" where
  "legalMove a b =
     (a = b \<or> (a = Some ChPending \<and> b = Some ChGenerating)
      \<or> (a = Some ChGenerating \<and> resolved b))"

section \<open>Runs of the writing loop\<close>

text \<open>
  The book \<^verbatim>\<open>handleFileUpload\<close> hands to \<^verbatim>\<open>processChapters\<close> has every slot
  filled with a pending chapter of empty content.
\<close>

definition pendingBook :: "Book \<Rightarrow> bool" where
  "pendingBook b =
     list_all (\<lambda>slot. case slot of
                        None \<Rightarrow> False
                      | Some c \<Rightarrow> status_ch c = ChPending \<and> content c = Some '''')
       (chapters b)"

text \<open>
  The updates of one call of \<^verbatim>\<open>processChapters\<close> together with those of the
  \<^verbatim>\<open>generateCover\<close> it starts, when the image request settles after \<open>p\<close> updates
  of the function (after all of them when \<open>p\<close> is larger than their number).
\<close>

definition writingRun :: "services \<Rightarrow> Book \<Rightarrow> string \<Rightarrow> nat \<Rightarrow> action list" where
  "writingRun env currentBook raw p =
     settleAt p (coverSettled env currentBook) (processChapters env currentBook raw)"

text \<open>The updates that touch only the cover and its flag, and a sequence without them.\<close>

definition isCoverUpdate :: "action \<Rightarrow> bool" where
  "isCoverUpdate a =
     (case a of SetCoverUrl _ \<Rightarrow> True | SetIsGeneratingCover _ \<Rightarrow> True | _ \<Rightarrow> False)"

abbreviation chapterUpdates :: "action list \<Rightarrow> action list" where
  "chapterUpdates as \<equiv> filter (\<lambda>a. \<not> isCoverUpdate a) as"

text \<open>A state with the cover and its flag blanked.\<close>

definition chapterView :: "app \<Rightarrow> app" where
  "chapterView s =
     s\<lparr>isGeneratingCover := False,
       book := map_option (\<lambda>b. b\<lparr>coverUrl := None\<rparr>) (book s)\<rparr>"

text \<open>
  A chapter after its writing has ended with result \<open>r\<close>; the slots of a book of which the
  first chapters are written; the slot being written (\<open>g\<close>: already marked) followed by the
  untouched ones.
\<close>

definition settle :: "error + string \<Rightarrow> Chapter \<Rightarrow> Chapter" where
  "settle r c =
     (case r of
        Inr text \<Rightarrow> c\<lparr>status_ch := ChCompleted, content := Some text\<rparr>
      | Inl e \<Rightarrow> c\<lparr>status_ch := ChError, content := Some errorPlaceholder\<rparr>)"

fun settleAll :: "services \<Rightarrow> string \<Rightarrow> BookMetadata \<Rightarrow> nat \<Rightarrow> Chapter list \<Rightarrow> Chapter option list" where
  "settleAll env raw md i [] = []"
| "settleAll env raw md i (c # cs) =
     Some (settle (writeCall env raw md i c) c) # settleAll env raw md (Suc i) cs"

fun current :: "bool \<Rightarrow> Chapter list \<Rightarrow> Chapter option list" where
  "current g [] = []"
| "current g (c # cs) = Some (if g then c\<lparr>status_ch := ChGenerating\<rparr> else c) # map Some cs"

text \<open>The updates of \<^verbatim>\<open>processChapters\<close> on chapters \<open>cs\<close>, those of the cover left out.\<close>

definition chain :: "services \<Rightarrow> string \<Rightarrow> BookMetadata \<Rightarrow> Chapter list \<Rightarrow> action list" where
  "chain env raw md cs =
     (case cs of [] \<Rightarrow> [] | c # _ \<Rightarrow> [SetActiveChapterId (id_ch c)])
     @ writeLoop env raw md 0 (map Some cs)"

text \<open>The updates a call of \<^verbatim>\<open>processChapters\<close> enqueues itself.\<close>

definition loopUpdate :: "action \<Rightarrow> bool" where
  "loopUpdate a =
     (case a of
        MarkGenerating _ \<Rightarrow> True
      | MarkCompleted _ _ \<Rightarrow> True
      | MarkError _ \<Rightarrow> True
      | SetLoadingState l \<Rightarrow> l = SUCCESS
      | UpdateStepStatus _ _ \<Rightarrow> True
      | SetActiveChapterId _ \<Rightarrow> True
      | SetIsGeneratingCover _ \<Rightarrow> True
      | _ \<Rightarrow> False)"

section \<open>Sample inputs\<close>

definition sampleFile :: File where
  "sampleFile = \<lparr>name_f = ''draft.docx'', type_f = docxType\<rparr>"

definition textFile :: File where
  "textFile = \<lparr>name_f = ''notes.txt'', type_f = ''text/plain''\<rparr>"

text \<open>
  An outline as the schema describes it; the third chapter lacks its description.
\<close>

definition samplePlan :: json where
  "samplePlan =
     JObject
       [(''metadata'',
         JObject [(''title'', JString ''Tides''), (''author'', JString ''A. Writer''),
                  (''summary'', JString ''On the sea''), (''language'', JString ''en'')]),
        (''chapters'',
         JArray
           [JObject [(''id'', JString ''c1''), (''title'', JString ''Ebb''),
                     (''description'', JString ''Opening'')],
            JObject [(''id'', JString ''c2''), (''title'', JString ''Flow''),
                     (''description'', JString ''Middle'')],
            JObject [(''id'', JString ''c3''), (''title'', JString ''Slack'')]])]"

text \<open>The messages of a JavaScript engine.\<close>

definition sampleEngine :: "fault \<Rightarrow> string" where
  "sampleEngine f =
     (case f of
        ChaptersOfNull \<Rightarrow> ''Cannot read properties of null''
      | MapNotAFunction \<Rightarrow> ''map is not a function''
      | ContentOfUndefined \<Rightarrow> ''Cannot read properties of undefined'')"

text \<open>
  Extraction and planning succeed; the writer answers the first chapter with prose,
  fails on the second, answers the third without text; the image request fails.
\<close>

definition sampleServices :: services where
  "sampleServices =
     \<lparr>readAsArrayBuffer = (\<lambda>f. Inr ''PK''),
      mammoth = Some (\<lambda>b. Inr ''Low water. High water.''),
      planModel = (\<lambda>r. Inr (Parsed samplePlan)),
      writeModel = (\<lambda>i r. if i = 0 then Inr (Some ''The water left.'')
                           else if i = 1 then Inl (Error (Some ''quota exceeded''))
                           else Inr None),
      coverModel = (\<lambda>r. Inl (Error (Some ''no image''))),
      typeError = sampleEngine\<rparr>"


text \<open>The book \<^verbatim>\<open>handleFileUpload\<close> builds from the sample outline.\<close>

definition sampleBook :: Book where
  "sampleBook =
     \<lparr>metadata = \<lparr>title = Some (JString ''Tides''), author = Some (JString ''A. Writer''),
                   genre = None, summary = Some (JString ''On the sea''),
                   language = Some (JString ''en'')\<rparr>,
      chapters =
        [Some \<lparr>id_ch = Some (JString ''c1''), title_ch = Some (JString ''Ebb''),
               description = Some (JString ''Opening''), content = Some '''',
               status_ch = ChPending, pageStart = Some 1\<rparr>,
         Some \<lparr>id_ch = Some (JString ''c2''), title_ch = Some (JString ''Flow''),
               description = Some (JString ''Middle''), content = Some '''',
               status_ch = ChPending, pageStart = Some 16\<rparr>,
         Some \<lparr>id_ch = Some (JString ''c3''), title_ch = Some (JString ''Slack''),
               description = None, content = Some '''',
               status_ch = ChPending, pageStart = Some 31\<rparr>],
      coverUrl = None,
      rawText = Some ''Low water. High water.''\<rparr>"

text \<open>The state in which \<^verbatim>\<open>handleFileUpload\<close> calls \<^verbatim>\<open>processChapters\<close> on the sample.\<close>

definition sampleWriting :: app where
  "sampleWriting =
     \<lparr>loadingState = WRITING,
      steps = updateStepStatus 3 StProcessing
                (updateStepStatus 2 StCompleted
                  (updateStepStatus 1 StCompleted
                    (updateStepStatus 0 StCompleted INITIAL_STEPS))),
      book = Some sampleBook, activeChapterId = None, isGeneratingCover = False,
      errorMsg = None, abortRef = False\<rparr>"




text \<open>
  A second upload, started while the first run waits for the writer's answer on its
  first chapter: its outline has one chapter.
\<close>

definition secondPlan :: json where
  "secondPlan =
     JObject
       [(''metadata'',
         JObject [(''title'', JString ''Sands''), (''author'', JString ''A. Writer''),
                  (''summary'', JString ''On the shore''), (''language'', JString ''en'')]),
        (''chapters'',
         JArray
           [JObject [(''id'', JString ''n1''), (''title'', JString ''Dunes''),
                     (''description'', JString ''Only chapter'')]])]"

definition secondServices :: services where
  "secondServices =
     \<lparr>readAsArrayBuffer = (\<lambda>f. Inr ''PK''),
      mammoth = Some (\<lambda>b. Inr ''Dry land.''),
      planModel = (\<lambda>r. Inr (Parsed secondPlan)),
      writeModel = (\<lambda>i r. Inr (Some ''Sand everywhere.'')),
      coverModel = (\<lambda>r. Inl (Error (Some ''no image''))),
      typeError = sampleEngine\<rparr>"

text \<open>The book \<^verbatim>\<open>handleFileUpload\<close> builds from the second outline.\<close>

definition secondBook :: Book where
  "secondBook =
     \<lparr>metadata = \<lparr>title = Some (JString ''Sands''), author = Some (JString ''A. Writer''),
                   genre = None, summary = Some (JString ''On the shore''),
                   language = Some (JString ''en'')\<rparr>,
      chapters =
        [Some \<lparr>id_ch = Some (JString ''n1''), title_ch = Some (JString ''Dunes''),
               description = Some (JString ''Only chapter''), content = Some '''',
               status_ch = ChPending, pageStart = Some 1\<rparr>],
      coverUrl = None,
      rawText = Some ''Dry land.''\<rparr>"

definition secondFile :: File where
  "secondFile = \<lparr>name_f = ''second.docx'', type_f = docxType\<rparr>"

text \<open>
  The first run after its first 17 updates, the last of which marks chapter 0 as
  generating; then the second upload after its first 17 updates, likewise.
\<close>

definition firstWriting :: app where
  "firstWriting = exec (take 17 (handleFileUpload sampleServices sampleFile)) initialApp"

definition secondStarted :: app where
  "secondStarted = exec (take 17 (handleFileUpload secondServices secondFile)) firstWriting"

section \<open>Lemmas about the update sequences\<close>

subsection \<open>One iteration and the whole loop\<close>


lemma arrayGet_mid: "arrayGet (pre @ x # post) (length pre) = x"
  by (simp add: arrayGet_def)

lemma arraySet_mid: "arraySet (pre @ x # post) (length pre) v = pre @ Some v # post"
  by (simp add: arraySet_def)

lemma markGenerating_mid:
  "chapters b = pre @ Some c # post \<Longrightarrow>
   markGenerating (length pre) (Some b) =
     Some (b\<lparr>chapters := pre @ Some (c\<lparr>status_ch := ChGenerating\<rparr>) # post\<rparr>)"
  by (simp add: markGenerating_def spreadStatus_def arrayGet_mid arraySet_mid)

lemma markCompleted_mid:
  "chapters b = pre @ Some c # post \<Longrightarrow>
   markCompleted (length pre) text (Some b) =
     Some (b\<lparr>chapters := pre @ Some (c\<lparr>status_ch := ChCompleted, content := Some text\<rparr>) # post\<rparr>)"
  by (simp add: markCompleted_def spreadStatusContent_def spreadStatus_def arrayGet_mid arraySet_mid)

lemma markError_mid:
  "chapters b = pre @ Some c # post \<Longrightarrow>
   markError (length pre) (Some b) =
     Some (b\<lparr>chapters := pre @ Some (c\<lparr>status_ch := ChError, content := Some errorPlaceholder\<rparr>) # post\<rparr>)"
  by (simp add: markError_def spreadStatusContent_def spreadStatus_def arrayGet_mid arraySet_mid)

text \<open>One iteration of the loop on the chapter at index \<open>length pre\<close>.\<close>

lemma iteration_exec:
  assumes "book s = Some b" and "chapters b = pre @ Some c # post"
  shows "exec [MarkGenerating (length pre),
               (case r of Inr text \<Rightarrow> MarkCompleted (length pre) text
                | Inl err \<Rightarrow> MarkError (length pre))] s
         = s\<lparr>book := Some (b\<lparr>chapters := pre @ Some (settle r c) # post\<rparr>)\<rparr>"
proof -
  let ?g = "b\<lparr>chapters := pre @ Some (c\<lparr>status_ch := ChGenerating\<rparr>) # post\<rparr>"
  have g: "markGenerating (length pre) (book s) = Some ?g"
    using assms by (simp add: markGenerating_mid)
  have cg: "chapters ?g = pre @ Some (c\<lparr>status_ch := ChGenerating\<rparr>) # post"
    by simp
  show ?thesis
  proof (cases r)
    case (Inl e)
    then show ?thesis
      using g markError_mid [OF cg] by (simp add: settle_def)
  next
    case (Inr t)
    then show ?thesis
      using g markCompleted_mid [OF cg, of t] by (simp add: settle_def)
  qed
qed


subsection \<open>Every state of the loop\<close>

lemma current_False: "current False cs = map Some cs"
  by (cases cs) simp_all

lemma trace_hd: "trace as s = s # tl (trace as s)"
  by (cases as) simp_all

lemma trace_nonempty: "trace as s \<noteq> []"
  by (cases as) simp_all

lemma writeLoop_trace:
  "book s = Some b \<Longrightarrow> chapters b = pre @ map Some cs \<Longrightarrow>
   s' \<in> set (trace (writeLoop env raw md (length pre) (map Some cs)) s) \<Longrightarrow>
   \<exists>k g. k \<le> length cs \<and> (g \<longrightarrow> k < length cs) \<and>
     book s' = Some (b\<lparr>chapters := pre @ settleAll env raw md (length pre) (take k cs)
                                      @ current g (drop k cs)\<rparr>)"
proof (induction cs arbitrary: s b pre)
  case Nil
  then have "book s' = Some b"
    by auto
  then have "book s' = Some (b\<lparr>chapters := pre @ settleAll env raw md (length pre) (take 0 [])
                                      @ current False (drop 0 [])\<rparr>)"
    using Nil.prems(2) by simp
  then show ?case by blast
next
  case (Cons c cs)
  let ?i = "length pre"
  let ?r = "writeCall env raw md ?i c"
  let ?a = "case ?r of Inr text \<Rightarrow> MarkCompleted ?i text | Inl err \<Rightarrow> MarkError ?i"
  let ?s1 = "applyAction (MarkGenerating ?i) s"
  let ?b2 = "b\<lparr>chapters := pre @ Some (settle ?r c) # map Some cs\<rparr>"
  let ?s2 = "s\<lparr>book := Some ?b2\<rparr>"
  have ch: "chapters b = pre @ Some c # map Some cs"
    using Cons.prems(2) by simp
  have s2: "applyAction ?a ?s1 = ?s2"
    using iteration_exec [OF Cons.prems(1) ch, of ?r] by simp
  have tr: "trace (writeLoop env raw md ?i (map Some (c # cs))) s =
            s # ?s1 # trace (writeLoop env raw md (Suc ?i) (map Some cs)) ?s2"
    using s2 by simp
  from Cons.prems(3) tr consider
    (first) "s' = s" | (second) "s' = ?s1"
    | (rest) "s' \<in> set (trace (writeLoop env raw md (Suc ?i) (map Some cs)) ?s2)"
    by auto
  then show ?case
  proof cases
    case first
    then have "book s' = Some (b\<lparr>chapters := pre @ settleAll env raw md ?i (take 0 (c # cs))
                                      @ current False (drop 0 (c # cs))\<rparr>)"
      using Cons.prems(1) ch by simp
    then show ?thesis by (intro exI [of _ 0] exI [of _ False]) simp
  next
    case second
    then have "book s' = Some (b\<lparr>chapters := pre @ settleAll env raw md ?i (take 0 (c # cs))
                                      @ current True (drop 0 (c # cs))\<rparr>)"
      using Cons.prems(1) markGenerating_mid [OF ch] by simp
    then show ?thesis by (intro exI [of _ 0] exI [of _ True]) simp
  next
    case rest
    have "\<exists>k g. k \<le> length cs \<and> (g \<longrightarrow> k < length cs) \<and>
            book s' = Some (?b2\<lparr>chapters := (pre @ [Some (settle ?r c)])
                               @ settleAll env raw md (length (pre @ [Some (settle ?r c)])) (take k cs)
                               @ current g (drop k cs)\<rparr>)"
      using rest by (intro Cons.IH [of ?s2 ?b2 "pre @ [Some (settle ?r c)]"]) simp_all
    then obtain k g where kg: "k \<le> length cs" "g \<longrightarrow> k < length cs"
      and bk: "book s' = Some (?b2\<lparr>chapters := (pre @ [Some (settle ?r c)])
                               @ settleAll env raw md (length (pre @ [Some (settle ?r c)])) (take k cs)
                               @ current g (drop k cs)\<rparr>)"
      by blast
    from bk have "book s' = Some (b\<lparr>chapters := pre @ settleAll env raw md ?i (take (Suc k) (c # cs))
                                      @ current g (drop (Suc k) (c # cs))\<rparr>)"
      by simp
    with kg show ?thesis by (intro exI [of _ "Suc k"] exI [of _ g]) simp
  qed
qed


lemma settleAll_length: "length (settleAll env raw md i cs) = length cs"
  by (induction cs arbitrary: i) simp_all

lemma settleAll_nth:
  "j < length cs \<Longrightarrow>
   settleAll env raw md i cs ! j = Some (settle (writeCall env raw md (i + j) (cs ! j)) (cs ! j))"
proof (induction cs arbitrary: i j)
  case Nil
  then show ?case by simp
next
  case (Cons c cs)
  then show ?case by (cases j) simp_all
qed

lemma current_length: "length (current g cs) = length cs"
  by (cases cs) simp_all

lemma current_nth:
  "j < length cs \<Longrightarrow>
   current g cs ! j = Some (if j = 0 \<and> g then (cs ! j)\<lparr>status_ch := ChGenerating\<rparr> else cs ! j)"
  by (cases cs; cases j) simp_all

lemma stage_length:
  "k \<le> length cs \<Longrightarrow>
   length (settleAll env raw md 0 (take k cs) @ current g (drop k cs)) = length cs"
  by (simp add: settleAll_length current_length)

lemma stage_nth:
  assumes "k \<le> length cs" and "j < length cs"
  shows "(settleAll env raw md 0 (take k cs) @ current g (drop k cs)) ! j =
           Some (if j < k then settle (writeCall env raw md j (cs ! j)) (cs ! j)
                 else if j = k \<and> g then (cs ! j)\<lparr>status_ch := ChGenerating\<rparr>
                 else cs ! j)"
proof (cases "j < k")
  case True
  then show ?thesis
    using assms by (simp add: nth_append settleAll_length settleAll_nth)
next
  case False
  then have "j - k < length (drop k cs)"
    using assms by simp
  then show ?thesis
    using False assms by (simp add: nth_append settleAll_length current_nth)
qed

subsection \<open>The moves of a status\<close>

lemma legalMove_refl: "legalMove a a"
  by (simp add: legalMove_def)

lemma arrayGet_mid_other:
  "j \<noteq> length pre \<Longrightarrow> arrayGet (pre @ y # post) j = arrayGet (pre @ x # post) j"
  by (auto simp add: arrayGet_def nth_append nth_Cons')

lemma statusAt_mid_eq:
  "statusAt (s\<lparr>book := Some (b\<lparr>chapters := pre @ Some c' # post\<rparr>)\<rparr>) (length pre) =
     Some (status_ch c')"
  by (simp add: statusAt_def arrayGet_mid)

lemma statusAt_mid_other:
  "j \<noteq> length pre \<Longrightarrow>
   statusAt (s\<lparr>book := Some (b\<lparr>chapters := pre @ y # post\<rparr>)\<rparr>) j =
   statusAt (s\<lparr>book := Some (b\<lparr>chapters := pre @ x # post\<rparr>)\<rparr>) j"
  using arrayGet_mid_other [of j pre y post x] by (simp add: statusAt_def)

lemma successively_trace:
  "successively R (x # trace as y) = (R x y \<and> successively R (trace as y))"
  by (cases as) simp_all

lemma writeLoop_moves:
  "book s = Some b \<Longrightarrow> chapters b = pre @ map Some cs \<Longrightarrow>
   \<forall>c\<in>set cs. status_ch c = ChPending \<Longrightarrow>
   successively (\<lambda>s1 s2. \<forall>j. legalMove (statusAt s1 j) (statusAt s2 j))
     (trace (writeLoop env raw md (length pre) (map Some cs)) s)"
proof (induction cs arbitrary: s b pre)
  case Nil
  then show ?case by (simp add: statusAt_def legalMove_refl)
next
  case (Cons c cs)
  let ?R = "\<lambda>s1 s2. \<forall>j. legalMove (statusAt s1 j) (statusAt s2 j)"
  let ?i = "length pre"
  let ?r = "writeCall env raw md ?i c"
  let ?a = "case ?r of Inr text \<Rightarrow> MarkCompleted ?i text | Inl err \<Rightarrow> MarkError ?i"
  let ?b1 = "b\<lparr>chapters := pre @ Some (c\<lparr>status_ch := ChGenerating\<rparr>) # map Some cs\<rparr>"
  let ?s1 = "s\<lparr>book := Some ?b1\<rparr>"
  let ?b2 = "b\<lparr>chapters := pre @ Some (settle ?r c) # map Some cs\<rparr>"
  let ?s2 = "s\<lparr>book := Some ?b2\<rparr>"
  have ch: "chapters b = pre @ Some c # map Some cs"
    using Cons.prems(2) by simp
  have s0: "s = s\<lparr>book := Some (b\<lparr>chapters := pre @ Some c # map Some cs\<rparr>)\<rparr>"
    using Cons.prems(1) ch by simp
  have s1: "applyAction (MarkGenerating ?i) s = ?s1"
    using Cons.prems(1) markGenerating_mid [OF ch] by simp
  have s2: "applyAction ?a ?s1 = ?s2"
    using iteration_exec [OF Cons.prems(1) ch, of ?r] s1 by simp
  have tr: "trace (writeLoop env raw md ?i (map Some (c # cs))) s =
            s # ?s1 # trace (writeLoop env raw md (Suc ?i) (map Some cs)) ?s2"
    using s1 s2 by simp
  have pend: "status_ch c = ChPending"
    using Cons.prems(3) by simp
  have m1: "?R s ?s1"
  proof
    fix j
    show "legalMove (statusAt s j) (statusAt ?s1 j)"
    proof (cases "j = ?i")
      case True
      have "statusAt s ?i = Some ChPending"
        using statusAt_mid_eq [where s = s and b = b and pre = pre and c' = c and post = "map Some cs"] s0 pend by simp
      then show ?thesis
        using True by (simp add: statusAt_mid_eq legalMove_def)
    next
      case False
      have "statusAt ?s1 j = statusAt s j"
        using statusAt_mid_other [OF False, where s = s and b = b and post = "map Some cs"
                and y = "Some (c\<lparr>status_ch := ChGenerating\<rparr>)" and x = "Some c"] s0 by simp
      then show ?thesis by (simp add: legalMove_refl)
    qed
  qed
  have m2: "?R ?s1 ?s2"
  proof
    fix j
    show "legalMove (statusAt ?s1 j) (statusAt ?s2 j)"
    proof (cases "j = ?i")
      case True
      have "resolved (Some (status_ch (settle ?r c)))"
        by (cases ?r) (simp_all add: settle_def resolved_def)
      then show ?thesis
        using True by (simp add: statusAt_mid_eq legalMove_def)
    next
      case False
      have "statusAt ?s2 j = statusAt ?s1 j"
        by (rule statusAt_mid_other [OF False])
      then show ?thesis by (simp add: legalMove_refl)
    qed
  qed
  have "successively ?R (trace (writeLoop env raw md (length (pre @ [Some (settle ?r c)])) (map Some cs)) ?s2)"
    using Cons.prems(3) by (intro Cons.IH [of ?s2 ?b2]) simp_all
  then have "successively ?R (trace (writeLoop env raw md (Suc ?i) (map Some cs)) ?s2)"
    by simp
  then show ?case
    unfolding tr using m1 m2 by (simp add: successively_trace)
qed

subsection \<open>The order of the attempts\<close>



subsection \<open>Cover updates do not disturb the chapters\<close>

lemma view_markGenerating:
  "map_option (\<lambda>b. b\<lparr>coverUrl := None\<rparr>) (markGenerating i p) =
   markGenerating i (map_option (\<lambda>b. b\<lparr>coverUrl := None\<rparr>) p)"
  by (cases p) (simp_all add: markGenerating_def Let_def)

lemma view_markCompleted:
  "map_option (\<lambda>b. b\<lparr>coverUrl := None\<rparr>) (markCompleted i t p) =
   markCompleted i t (map_option (\<lambda>b. b\<lparr>coverUrl := None\<rparr>) p)"
  by (cases p) (simp_all add: markCompleted_def Let_def)

lemma view_markError:
  "map_option (\<lambda>b. b\<lparr>coverUrl := None\<rparr>) (markError i p) =
   markError i (map_option (\<lambda>b. b\<lparr>coverUrl := None\<rparr>) p)"
  by (cases p) (simp_all add: markError_def Let_def)

lemma view_withCover:
  "map_option (\<lambda>b. b\<lparr>coverUrl := None\<rparr>) (withCover url p) =
   map_option (\<lambda>b. b\<lparr>coverUrl := None\<rparr>) p"
  by (cases p) (simp_all add: withCover_def)

lemma view_apply: "chapterView (applyAction a s) = chapterView (applyAction a (chapterView s))"
  by (cases a)
     (simp_all add: chapterView_def view_markGenerating view_markCompleted view_markError
        view_withCover option.map_comp comp_def)

lemma view_apply_cong:
  "chapterView s = chapterView t \<Longrightarrow>
   chapterView (applyAction a s) = chapterView (applyAction a t)"
  using view_apply [of a s] view_apply [of a t] by simp

lemma view_cover: "isCoverUpdate a \<Longrightarrow> chapterView (applyAction a s) = chapterView s"
  by (cases a) (simp_all add: isCoverUpdate_def chapterView_def view_withCover)


lemma view_trace:
  "chapterView s = chapterView t \<Longrightarrow>
   chapterView ` set (trace zs s) = chapterView ` set (trace (chapterUpdates zs) t)"
proof (induction zs arbitrary: s t)
  case Nil
  then show ?case by simp
next
  case (Cons z zs)
  show ?case
  proof (cases "isCoverUpdate z")
    case True
    then have v: "chapterView (applyAction z s) = chapterView t"
      using Cons.prems by (simp add: view_cover)
    have "chapterView t \<in> chapterView ` set (trace (chapterUpdates zs) t)"
      using trace_hd [of "chapterUpdates zs" t] by (metis imageI list.set_intros(1))
    then show ?thesis
      using True Cons.IH [OF v] Cons.prems by auto
  next
    case False
    then show ?thesis
      using Cons.IH [OF view_apply_cong [OF Cons.prems]] Cons.prems by simp
  qed
qed

lemma statusAt_view: "statusAt (chapterView s) i = statusAt s i"
  by (cases "book s") (simp_all add: statusAt_def chapterView_def)

lemma contentAt_view: "contentAt (chapterView s) i = contentAt s i"
  by (cases "book s") (simp_all add: contentAt_def chapterView_def)


lemma view_moves:
  "chapterView s = chapterView t \<Longrightarrow>
   successively (\<lambda>s1 s2. \<forall>j. legalMove (statusAt s1 j) (statusAt s2 j)) (trace zs s) =
   successively (\<lambda>s1 s2. \<forall>j. legalMove (statusAt s1 j) (statusAt s2 j))
     (trace (chapterUpdates zs) t)"
proof (induction zs arbitrary: s t)
  case Nil
  then show ?case by simp
next
  case (Cons z zs)
  let ?R = "\<lambda>s1 s2. \<forall>j. legalMove (statusAt s1 j) (statusAt s2 j)"
  have st: "statusAt s j = statusAt t j" for j
    using Cons.prems statusAt_view [of s j] statusAt_view [of t j] by simp
  show ?case
  proof (cases "isCoverUpdate z")
    case True
    then have v: "chapterView (applyAction z s) = chapterView t"
      using Cons.prems by (simp add: view_cover)
    have "statusAt (applyAction z s) j = statusAt s j" for j
      using v Cons.prems statusAt_view [of "applyAction z s" j] statusAt_view [of s j] by simp
    then have "?R s (applyAction z s)"
      by (simp add: legalMove_refl)
    then show ?thesis
      using True Cons.IH [OF v] by (simp add: successively_trace)
  next
    case False
    have v: "chapterView (applyAction z s) = chapterView (applyAction z t)"
      by (rule view_apply_cong [OF Cons.prems])
    have "statusAt (applyAction z s) j = statusAt (applyAction z t) j" for j
      using v statusAt_view [of "applyAction z s" j] statusAt_view [of "applyAction z t" j] by simp
    then have "?R s (applyAction z s) = ?R t (applyAction z t)"
      using st by simp
    then show ?thesis
      using False Cons.IH [OF v] by (simp add: successively_trace)
  qed
qed

subsection \<open>The four processing steps\<close>

lemma updateStepStatus_four:
  "updateStepStatus i st [a, b, c, d] =
     [if i = 0 then a\<lparr>status := st\<rparr> else a, if i = 1 then b\<lparr>status := st\<rparr> else b,
      if i = 2 then c\<lparr>status := st\<rparr> else c, if i = 3 then d\<lparr>status := st\<rparr> else d]"
  by (simp add: updateStepStatus_def upt_rec)

subsection \<open>Runs of processChapters\<close>

lemma pendingBook_slots:
  assumes "pendingBook b"
  obtains cs where "chapters b = map Some cs"
    and "\<forall>c\<in>set cs. status_ch c = ChPending \<and> content c = Some ''''"
proof
  have all: "\<forall>x\<in>set (chapters b). \<exists>c. x = Some c \<and> status_ch c = ChPending \<and> content c = Some ''''"
    using assms by (auto simp add: pendingBook_def list_all_iff split: option.splits)
  then have "map (\<lambda>x. Some (the x)) (chapters b) = chapters b"
    by (intro map_idI) auto
  then show "chapters b = map Some (map the (chapters b))"
    by (simp add: comp_def)
  show "\<forall>c\<in>set (map the (chapters b)). status_ch c = ChPending \<and> content c = Some ''''"
    using all by auto
qed

lemma processChapters_filled:
  "chapters b = map Some cs \<Longrightarrow>
   processChapters env b raw =
     (case cs of [] \<Rightarrow> [] | c # _ \<Rightarrow> [SetActiveChapterId (id_ch c)])
     @ SetIsGeneratingCover True # writeLoop env raw (metadata b) 0 (map Some cs)"
  by (cases cs) (simp_all add: processChapters_def)

lemma isCoverUpdate_simps:
  "isCoverUpdate (SetLoadingState l) = False"
  "isCoverUpdate (SetErrorMsg m) = False"
  "isCoverUpdate (SetBook bo) = False"
  "isCoverUpdate (SetSteps xs) = False"
  "isCoverUpdate (UpdateStepStatus i st) = False"
  "isCoverUpdate (SetActiveChapterId x) = False"
  "isCoverUpdate (SetIsGeneratingCover g) = True"
  "isCoverUpdate (MarkGenerating i) = False"
  "isCoverUpdate (MarkCompleted i t) = False"
  "isCoverUpdate (MarkError i) = False"
  "isCoverUpdate (SetCoverUrl u) = True"
  by (simp_all add: isCoverUpdate_def)

lemma writeLoop_no_cover: "chapterUpdates (writeLoop env raw md i xs) = writeLoop env raw md i xs"
proof (induction env raw md i xs rule: writeLoop.induct)
  case (3 env raw md i c rest)
  then show ?case
    by (cases "writeCall env raw md i c") (simp_all add: isCoverUpdate_simps)
qed (simp_all add: isCoverUpdate_simps)

lemma coverSettled_cover: "chapterUpdates (coverSettled env b) = []"
  by (simp add: coverSettled_def isCoverUpdate_simps split: sum.splits)

lemma chapterUpdates_settleAt:
  "chapterUpdates late = [] \<Longrightarrow> chapterUpdates (settleAt p late acts) = chapterUpdates acts"
proof -
  assume "chapterUpdates late = []"
  then have "chapterUpdates (settleAt p late acts) = chapterUpdates (take p acts @ drop p acts)"
    unfolding settleAt_def filter_append by simp
  then show ?thesis
    unfolding append_take_drop_id .
qed

lemma run_chapterUpdates:
  assumes "chapters b = map Some cs"
  shows "chapterUpdates (writingRun env b raw p) = chain env raw (metadata b) cs"
proof -
  have "chapterUpdates (writingRun env b raw p) = chapterUpdates (processChapters env b raw)"
    unfolding writingRun_def by (rule chapterUpdates_settleAt [OF coverSettled_cover])
  also have "\<dots> = chain env raw (metadata b) cs"
    unfolding processChapters_filled [OF assms] chain_def
    by (cases cs) (simp_all add: writeLoop_no_cover isCoverUpdate_simps del: writeLoop.simps)
  finally show ?thesis .
qed

lemma chain_trace:
  assumes "book s = Some b" and "chapters b = map Some cs"
    and "s' \<in> set (trace (chain env raw md cs) s)"
  shows "\<exists>k g. k \<le> length cs \<and> (g \<longrightarrow> k < length cs) \<and>
           book s' = Some (b\<lparr>chapters := settleAll env raw md 0 (take k cs) @ current g (drop k cs)\<rparr>)"
proof -
  have loop: "t' \<in> set (trace (writeLoop env raw md 0 (map Some cs)) t) \<Longrightarrow> book t = Some b \<Longrightarrow>
      \<exists>k g. k \<le> length cs \<and> (g \<longrightarrow> k < length cs) \<and>
           book t' = Some (b\<lparr>chapters := settleAll env raw md 0 (take k cs) @ current g (drop k cs)\<rparr>)"
    for t t'
    using writeLoop_trace [of t b "[]" cs t' env raw md] assms(2) by simp
  show ?thesis
  proof (cases cs)
    case Nil
    then show ?thesis using loop [of s' s] assms by (simp add: chain_def)
  next
    case (Cons c rest)
    let ?t = "applyAction (SetActiveChapterId (id_ch c)) s"
    have tr: "trace (chain env raw md cs) s = s # trace (writeLoop env raw md 0 (map Some cs)) ?t"
      using Cons by (simp add: chain_def)
    have bt: "book ?t = Some b"
      using assms(1) by simp
    from assms(3) tr consider (first) "s' = s"
      | (rest) "s' \<in> set (trace (writeLoop env raw md 0 (map Some cs)) ?t)"
      by auto
    then show ?thesis
    proof cases
      case first
      have "s \<in> set (trace (writeLoop env raw md 0 (map Some cs)) s)"
        using trace_hd [of "writeLoop env raw md 0 (map Some cs)" s]
        by (metis list.set_intros(1))
      then show ?thesis using loop [of s s] assms(1) first by simp
    next
      case rest
      then show ?thesis using loop [of s' ?t] bt by simp
    qed
  qed
qed

lemma chapters_view: "map_option chapters (book (chapterView s)) = map_option chapters (book s)"
  by (cases "book s") (simp_all add: chapterView_def)

lemma run_states:
  assumes "book s = Some b" and "chapters b = map Some cs"
    and "s' \<in> set (trace (writingRun env b raw p) s)"
  shows "\<exists>k g. k \<le> length cs \<and> (g \<longrightarrow> k < length cs) \<and>
           map_option chapters (book s') =
             Some (settleAll env raw (metadata b) 0 (take k cs) @ current g (drop k cs))"
proof -
  have "chapterView s' \<in> chapterView ` set (trace (chain env raw (metadata b) cs) s)"
    using view_trace [of s s "writingRun env b raw p"] assms(3)
    by (simp add: run_chapterUpdates [OF assms(2)] image_iff) blast
  then obtain s'' where s'': "s'' \<in> set (trace (chain env raw (metadata b) cs) s)"
    and v: "chapterView s' = chapterView s''"
    by auto
  from chain_trace [OF assms(1,2) s''] obtain k g where kg: "k \<le> length cs" "g \<longrightarrow> k < length cs"
    and b'': "book s'' = Some (b\<lparr>chapters := settleAll env raw (metadata b) 0 (take k cs)
                                            @ current g (drop k cs)\<rparr>)"
    by blast
  have "map_option chapters (book s') = map_option chapters (book s'')"
    using v chapters_view [of s'] chapters_view [of s''] by simp
  then show ?thesis using kg b'' by auto
qed

lemma stage_status:
  assumes "map_option chapters (book s') =
             Some (settleAll env raw md 0 (take k cs) @ current g (drop k cs))"
    and "k \<le> length cs"
  shows "statusAt s' j =
           (if j < length cs
            then Some (if j < k then status_ch (settle (writeCall env raw md j (cs ! j)) (cs ! j))
                       else if j = k \<and> g then ChGenerating else status_ch (cs ! j))
            else None)"
    and "contentAt s' j =
           (if j < length cs
            then (if j < k then content (settle (writeCall env raw md j (cs ! j)) (cs ! j))
                  else content (cs ! j))
            else None)"
proof -
  obtain b' where b': "book s' = Some b'"
    and ch: "chapters b' = settleAll env raw md 0 (take k cs) @ current g (drop k cs)"
    using assms(1) by (cases "book s'") auto
  have len: "length (chapters b') = length cs"
    using ch stage_length [OF assms(2)] by simp
  show "statusAt s' j =
           (if j < length cs
            then Some (if j < k then status_ch (settle (writeCall env raw md j (cs ! j)) (cs ! j))
                       else if j = k \<and> g then ChGenerating else status_ch (cs ! j))
            else None)"
  proof (cases "j < length cs")
    case True
    then show ?thesis
      using b' len ch stage_nth [OF assms(2) True, of env raw md g]
      by (simp add: statusAt_def arrayGet_def)
  next
    case False
    then show ?thesis using b' len by (simp add: statusAt_def arrayGet_def)
  qed
  show "contentAt s' j =
           (if j < length cs
            then (if j < k then content (settle (writeCall env raw md j (cs ! j)) (cs ! j))
                  else content (cs ! j))
            else None)"
  proof (cases "j < length cs")
    case True
    then show ?thesis
      using b' len ch stage_nth [OF assms(2) True, of env raw md g]
      by (simp add: contentAt_def arrayGet_def)
  next
    case False
    then show ?thesis using b' len by (simp add: contentAt_def arrayGet_def)
  qed
qed





lemma run_moves:
  assumes "book s = Some b" and "chapters b = map Some cs"
    and "\<forall>c\<in>set cs. status_ch c = ChPending"
  shows "successively (\<lambda>s1 s2. \<forall>j. legalMove (statusAt s1 j) (statusAt s2 j))
           (trace (writingRun env b raw p) s)"
proof -
  let ?R = "\<lambda>s1 s2. \<forall>j. legalMove (statusAt s1 j) (statusAt s2 j)"
  have loop: "book t = Some b \<Longrightarrow> successively ?R (trace (writeLoop env raw (metadata b) 0 (map Some cs)) t)" for t
    using writeLoop_moves [of t b "[]" cs env raw "metadata b"] assms(2,3) by simp
  have "successively ?R (trace (chain env raw (metadata b) cs) s)"
  proof (cases cs)
    case Nil
    then show ?thesis using loop [of s] assms(1) by (simp add: chain_def)
  next
    case (Cons c rest)
    let ?t = "applyAction (SetActiveChapterId (id_ch c)) s"
    have "?R s ?t"
      by (simp add: statusAt_def legalMove_refl)
    moreover have "successively ?R (trace (writeLoop env raw (metadata b) 0 (map Some cs)) ?t)"
      using loop [of ?t] assms(1) by simp
    ultimately show ?thesis
      using Cons successively_trace [of ?R s "writeLoop env raw (metadata b) 0 (map Some cs)" ?t]
      by (simp add: chain_def)
  qed
  then show ?thesis
    using view_moves [of s s "writingRun env b raw p"] run_chapterUpdates [OF assms(2)] by simp
qed




subsection \<open>The sample run\<close>

lemma exec_take_in_trace: "exec (take n as) s \<in> set (trace as s)"
proof (induction as arbitrary: n s)
  case Nil
  then show ?case by simp
next
  case (Cons a as)
  then show ?case by (cases n) simp_all
qed

lemma exec_in_trace: "exec as s \<in> set (trace as s)"
  using exec_take_in_trace [of "length as" as s] by simp

lemma sampleBook_chapters:
  "chapters sampleBook =
     [Some \<lparr>id_ch = Some (JString ''c1''), title_ch = Some (JString ''Ebb''),
            description = Some (JString ''Opening''),
            content = Some '''', status_ch = ChPending, pageStart = Some 1\<rparr>,
      Some \<lparr>id_ch = Some (JString ''c2''), title_ch = Some (JString ''Flow''),
            description = Some (JString ''Middle''),
            content = Some '''', status_ch = ChPending, pageStart = Some 16\<rparr>,
      Some \<lparr>id_ch = Some (JString ''c3''), title_ch = Some (JString ''Slack''),
            description = None,
            content = Some '''', status_ch = ChPending, pageStart = Some 31\<rparr>]"
  by (simp add: sampleBook_def)

lemma sampleBook_pending: "pendingBook sampleBook"
  by (simp add: pendingBook_def sampleBook_chapters)

lemma sampleWriting_book: "book sampleWriting = Some sampleBook"
  by (simp add: sampleWriting_def)

lemma sample_writeCall:
  "writeCall sampleServices raw md i c =
     (if i = 0 then Inr ''The water left.''
      else if i = 1 then Inl (Error (Some ''quota exceeded''))
      else Inr '''')"
  by (simp add: writeCall_def generateChapterContent_def sampleServices_def)

lemma sample_cover: "coverSettled sampleServices b = [SetIsGeneratingCover False]"
  by (simp add: coverSettled_def generateBookCover_def sampleServices_def)

lemma sample_processChapters:
  "processChapters sampleServices sampleBook raw =
     [SetActiveChapterId (Some (JString ''c1'')), SetIsGeneratingCover True,
      MarkGenerating 0, MarkCompleted 0 ''The water left.'',
      MarkGenerating 1, MarkError 1,
      MarkGenerating 2, MarkCompleted 2 '''',
      SetLoadingState SUCCESS, UpdateStepStatus 3 StCompleted]"
  by (simp add: processChapters_def sampleBook_chapters sample_writeCall eval_nat_numeral)

lemma sample_run:
  "writingRun sampleServices sampleBook raw 4 =
     [SetActiveChapterId (Some (JString ''c1'')), SetIsGeneratingCover True,
      MarkGenerating 0, MarkCompleted 0 ''The water left.'',
      SetIsGeneratingCover False,
      MarkGenerating 1, MarkError 1,
      MarkGenerating 2, MarkCompleted 2 '''',
      SetLoadingState SUCCESS, UpdateStepStatus 3 StCompleted]"
  by (simp add: writingRun_def settleAt_def sample_processChapters sample_cover)

lemma arrayGet_simps:
  "arrayGet [] i = None"
  "arrayGet (x # xs) 0 = x"
  "arrayGet (x # xs) (Suc i) = arrayGet xs i"
  by (simp_all add: arrayGet_def)

lemma arraySet_simps:
  "arraySet (x # xs) 0 v = Some v # xs"
  "arraySet (x # xs) (Suc i) v = x # arraySet xs i v"
  by (simp_all add: arraySet_def)

lemmas sample_eval =
  sampleWriting_def sampleBook_chapters markGenerating_def markCompleted_def markError_def
  spreadStatus_def spreadStatusContent_def arrayGet_simps arraySet_simps statusAt_def
  contentAt_def Let_def eval_nat_numeral

lemma sample_final:
  "statusAt (exec (writingRun sampleServices sampleBook raw 4) sampleWriting) 0 = Some ChCompleted"
  "statusAt (exec (writingRun sampleServices sampleBook raw 4) sampleWriting) 1 = Some ChError"
  "statusAt (exec (writingRun sampleServices sampleBook raw 4) sampleWriting) 2 = Some ChCompleted"
  "contentAt (exec (writingRun sampleServices sampleBook raw 4) sampleWriting) 0 = Some ''The water left.''"
  "contentAt (exec (writingRun sampleServices sampleBook raw 4) sampleWriting) 1 = Some errorPlaceholder"
  "contentAt (exec (writingRun sampleServices sampleBook raw 4) sampleWriting) 2 = Some ''''"
  "loadingState (exec (writingRun sampleServices sampleBook raw 4) sampleWriting) = SUCCESS"
  unfolding sample_run by (simp_all add: sample_eval)

lemma settle_status:
  "status_ch (settle r c) = (case r of Inl e \<Rightarrow> ChError | Inr t \<Rightarrow> ChCompleted)"
  "content (settle r c) = Some (case r of Inl e \<Rightarrow> errorPlaceholder | Inr t \<Rightarrow> t)"
  by (cases r; simp add: settle_def)+




subsection \<open>Frames\<close>

lemma writeLoop_loopUpdate: "a \<in> set (writeLoop env raw md i xs) \<Longrightarrow> loopUpdate a"
proof (induction env raw md i xs rule: writeLoop.induct)
  case (3 env raw md i c rest)
  then show ?case
    by (cases "writeCall env raw md i c") (auto simp add: loopUpdate_def)
qed (auto simp add: loopUpdate_def)

lemma processChapters_loopUpdate: "a \<in> set (processChapters env b raw) \<Longrightarrow> loopUpdate a"
  by (auto simp add: processChapters_def Let_def loopUpdate_def
        split: list.splits option.splits dest: writeLoop_loopUpdate)


lemma loopUpdate_frame:
  assumes "loopUpdate a"
  shows "loadingState (applyAction a s) = loadingState s \<or> loadingState (applyAction a s) = SUCCESS"
    and "map_option coverUrl (book (applyAction a s)) = map_option coverUrl (book s)"
    and "errorMsg (applyAction a s) = errorMsg s"
  using assms
  by (cases a; cases "book s";
      simp add: loopUpdate_def markGenerating_def markCompleted_def markError_def Let_def)+

lemma loopUpdate_trace:
  assumes "\<forall>a\<in>set zs. loopUpdate a" and "s' \<in> set (trace zs s)"
  shows "(loadingState s' = loadingState s \<or> loadingState s' = SUCCESS)
       \<and> map_option coverUrl (book s') = map_option coverUrl (book s)"
  using assms
proof (induction zs arbitrary: s)
  case Nil
  then show ?case by simp
next
  case (Cons z zs)
  show ?case
  proof (cases "s' = s")
    case True
    then show ?thesis by simp
  next
    case False
    then have "s' \<in> set (trace zs (applyAction z s))"
      using Cons.prems(2) by simp
    then have "(loadingState s' = loadingState (applyAction z s) \<or> loadingState s' = SUCCESS)
       \<and> map_option coverUrl (book s') = map_option coverUrl (book (applyAction z s))"
      using Cons.IH Cons.prems(1) by simp
    then show ?thesis
      using loopUpdate_frame(1,2) [of z s] Cons.prems(1) by auto
  qed
qed

lemma newChapters_pending:
  assumes "newChapters tm structure = Inr chs"
  shows "list_all (\<lambda>slot. case slot of
                             None \<Rightarrow> False
                           | Some c \<Rightarrow> status_ch c = ChPending \<and> content c = Some '''') chs"
proof -
  obtain xs where "chs = map (\<lambda>(idx, ch). Some (newChapter idx ch)) (zip [0..<length xs] xs)"
    using assms
    by (auto simp add: newChapters_def split: json.splits option.splits if_splits)
  then show ?thesis
    by (auto simp add: list_all_iff newChapter_def)
qed

lemma newBook_pending:
  "newChapters tm structure = Inr chs \<Longrightarrow> pendingBook (newBook structure chs raw)"
  using newChapters_pending [of tm "structure" chs] by (simp add: pendingBook_def newBook_def)



subsection \<open>The upload handler\<close>




lemma upload_planned:
  "parseDocx env file = Inr raw \<Longrightarrow>
   generateBookStructure (planModel env) raw (name_f file) = Inr structure \<Longrightarrow>
   newChapters (typeError env) structure = Inr chs \<Longrightarrow>
   handleFileUpload env file =
     [SetLoadingState PARSING, SetErrorMsg None, SetBook None, SetSteps INITIAL_STEPS,
      UpdateStepStatus 0 StProcessing,
      UpdateStepStatus 0 StCompleted, SetLoadingState PLANNING,
      UpdateStepStatus 1 StProcessing, UpdateStepStatus 2 StProcessing,
      SetBook (Some (newBook structure chs raw)),
      UpdateStepStatus 1 StCompleted, UpdateStepStatus 2 StCompleted,
      SetLoadingState WRITING, UpdateStepStatus 3 StProcessing]
     @ processChapters env (newBook structure chs raw) raw"
  by (simp add: handleFileUpload_def)





subsection \<open>Updates of an earlier run\<close>

lemma arrayGet_arraySet: "arrayGet (arraySet xs i v) i = Some v"
  by (simp add: arrayGet_def arraySet_def nth_append)

lemma stale_on_null:
  "book t = None \<Longrightarrow> book (applyAction (MarkGenerating i) t) = None"
  "book t = None \<Longrightarrow> book (applyAction (MarkCompleted i w) t) = None"
  "book t = None \<Longrightarrow> book (applyAction (MarkError i) t) = None"
  "book t = None \<Longrightarrow> book (applyAction (SetCoverUrl u) t) = None"
  by (simp_all add: markGenerating_def markCompleted_def markError_def withCover_def)

lemma stale_on_book:
  assumes "book t = Some b"
  shows "statusAt (applyAction (MarkGenerating i) t) i = Some ChGenerating"
    and "statusAt (applyAction (MarkCompleted i w) t) i = Some ChCompleted"
    and "contentAt (applyAction (MarkCompleted i w) t) i = Some w"
    and "statusAt (applyAction (MarkError i) t) i = Some ChError"
    and "contentAt (applyAction (MarkError i) t) i = Some errorPlaceholder"
  using assms
  by (simp_all add: statusAt_def contentAt_def markGenerating_def markCompleted_def
        markError_def Let_def arrayGet_arraySet spreadStatus_def spreadStatusContent_def
        split: option.splits)

lemma no_idle_step:
  "a \<noteq> SetLoadingState IDLE \<Longrightarrow> loadingState s \<noteq> IDLE \<Longrightarrow> loadingState (applyAction a s) \<noteq> IDLE"
  by (cases a) auto

lemma no_idle_trace:
  "\<forall>a\<in>set zs. a \<noteq> SetLoadingState IDLE \<Longrightarrow> loadingState s \<noteq> IDLE \<Longrightarrow>
   s' \<in> set (trace zs s) \<Longrightarrow> loadingState s' \<noteq> IDLE"
proof (induction zs arbitrary: s)
  case Nil
  then show ?case by simp
next
  case (Cons z zs)
  show ?case
  proof (cases "s' = s")
    case True
    then show ?thesis using Cons.prems(2) by simp
  next
    case False
    then have "s' \<in> set (trace zs (applyAction z s))"
      using Cons.prems(3) by simp
    moreover have "loadingState (applyAction z s) \<noteq> IDLE"
      using Cons.prems(1,2) by (intro no_idle_step) simp_all
    ultimately show ?thesis
      using Cons.IH Cons.prems(1) by simp
  qed
qed

lemma upload_no_idle: "a \<in> set (handleFileUpload env file) \<Longrightarrow> a \<noteq> SetLoadingState IDLE"
proof
  assume a: "a \<in> set (handleFileUpload env file)" and i: "a = SetLoadingState IDLE"
  have "\<not> loopUpdate (SetLoadingState IDLE)"
    by (simp add: loopUpdate_def)
  then have "SetLoadingState IDLE \<notin> set (processChapters env b raw)" for b raw
    using processChapters_loopUpdate by blast
  then show False
    using a i
    by (auto simp add: handleFileUpload_def catchUpload_def split: sum.splits)
qed

lemma upload_head:
  "handleFileUpload env file = SetLoadingState PARSING # tl (handleFileUpload env file)"
  by (simp add: handleFileUpload_def)

lemma exec_in_tl_trace: "as \<noteq> [] \<Longrightarrow> exec as s \<in> set (tl (trace as s))"
  by (cases as) (simp_all add: exec_in_trace)

lemma sample_parse: "parseDocx sampleServices sampleFile = Inr ''Low water. High water.''"
  by (simp add: parseDocx_def sampleServices_def)

lemma sample_plan:
  "generateBookStructure (planModel sampleServices) ''Low water. High water.'' (name_f sampleFile)
     = Inr samplePlan"
  by (simp add: generateBookStructure_def sampleServices_def)

lemma sample_chapters: "newChapters tm samplePlan = Inr (chapters sampleBook)"
  by (simp add: newChapters_def newChapter_def samplePlan_def sampleBook_def upt_rec)

lemma sample_newBook: "newBook samplePlan (chapters sampleBook) ''Low water. High water.'' = sampleBook"
  by (simp add: newBook_def asMetadata_def samplePlan_def sampleBook_def)

lemma sample_upload:
  "handleFileUpload sampleServices sampleFile =
     [SetLoadingState PARSING, SetErrorMsg None, SetBook None, SetSteps INITIAL_STEPS,
      UpdateStepStatus 0 StProcessing,
      UpdateStepStatus 0 StCompleted, SetLoadingState PLANNING,
      UpdateStepStatus 1 StProcessing, UpdateStepStatus 2 StProcessing,
      SetBook (Some sampleBook),
      UpdateStepStatus 1 StCompleted, UpdateStepStatus 2 StCompleted,
      SetLoadingState WRITING, UpdateStepStatus 3 StProcessing,
      SetActiveChapterId (Some (JString ''c1'')), SetIsGeneratingCover True,
      MarkGenerating 0, MarkCompleted 0 ''The water left.'',
      MarkGenerating 1, MarkError 1,
      MarkGenerating 2, MarkCompleted 2 '''',
      SetLoadingState SUCCESS, UpdateStepStatus 3 StCompleted]"
  unfolding upload_planned [OF sample_parse sample_plan sample_chapters] sample_newBook
    sample_processChapters
  by simp

lemma second_chapters:
  "newChapters tm secondPlan =
     Inr [Some \<lparr>id_ch = Some (JString ''n1''), title_ch = Some (JString ''Dunes''),
                description = Some (JString ''Only chapter''),
                content = Some '''', status_ch = ChPending, pageStart = Some 1\<rparr>]"
  by (simp add: newChapters_def newChapter_def secondPlan_def)

lemma second_upload:
  "handleFileUpload secondServices secondFile =
     [SetLoadingState PARSING, SetErrorMsg None, SetBook None, SetSteps INITIAL_STEPS,
      UpdateStepStatus 0 StProcessing,
      UpdateStepStatus 0 StCompleted, SetLoadingState PLANNING,
      UpdateStepStatus 1 StProcessing, UpdateStepStatus 2 StProcessing,
      SetBook (Some secondBook),
      UpdateStepStatus 1 StCompleted, UpdateStepStatus 2 StCompleted,
      SetLoadingState WRITING, UpdateStepStatus 3 StProcessing,
      SetActiveChapterId (Some (JString ''n1'')), SetIsGeneratingCover True,
      MarkGenerating 0, MarkCompleted 0 ''Sand everywhere.'',
      SetLoadingState SUCCESS, UpdateStepStatus 3 StCompleted]"
proof -
  have p: "parseDocx secondServices secondFile = Inr ''Dry land.''"
    by (simp add: parseDocx_def secondServices_def)
  have g: "generateBookStructure (planModel secondServices) ''Dry land.'' (name_f secondFile)
             = Inr secondPlan"
    by (simp add: generateBookStructure_def secondServices_def)
  have w: "writeCall secondServices raw md i c = Inr ''Sand everywhere.''" for raw md i c
    by (simp add: writeCall_def generateChapterContent_def secondServices_def)
  show ?thesis
    unfolding upload_planned [OF p g second_chapters]
    by (simp add: processChapters_def newBook_def asMetadata_def secondPlan_def secondBook_def w)
qed

text \<open>
  Once the chapters have been taken from the outline the handler has set the new book,
  which is pending throughout,
  and the stage WRITING, and goes on with the updates of \<^verbatim>\<open>processChapters\<close>.
\<close>

lemma upload_calls_processChapters:
  assumes "parseDocx env file = Inr raw"
    and "generateBookStructure (planModel env) raw (name_f file) = Inr structure"
    and "newChapters (typeError env) structure = Inr chs"
  shows "drop 14 (handleFileUpload env file) = processChapters env (newBook structure chs raw) raw"
    and "book (exec (take 14 (handleFileUpload env file)) s) = Some (newBook structure chs raw)"
    and "loadingState (exec (take 14 (handleFileUpload env file)) s) = WRITING"
    and "pendingBook (newBook structure chs raw)"
  unfolding upload_planned [OF assms] using newBook_pending [OF assms(3)] by simp_all

lemma sampleWriting_reached:
  "exec (take 14 (handleFileUpload sampleServices sampleFile)) initialApp = sampleWriting"
  unfolding sample_upload
  by (simp add: initialApp_def sampleWriting_def INITIAL_STEPS_def updateStepStatus_four)

lemma trace_drop: "drop (length xs) (trace (xs @ ys) s) = trace ys (exec xs s)"
  by (induction xs arbitrary: s) simp_all

lemma upload_writing_states:
  assumes p: "parseDocx env file = Inr raw"
    and g: "generateBookStructure (planModel env) raw (name_f file) = Inr structure"
    and c: "newChapters (typeError env) structure = Inr chs"
    and s': "s' \<in> set (drop 14 (trace (handleFileUpload env file) s))"
  shows "loadingState s' = WRITING \<or> loadingState s' = SUCCESS"
proof -
  let ?pre = "[SetLoadingState PARSING, SetErrorMsg None, SetBook None, SetSteps INITIAL_STEPS,
      UpdateStepStatus 0 StProcessing,
      UpdateStepStatus 0 StCompleted, SetLoadingState PLANNING,
      UpdateStepStatus 1 StProcessing, UpdateStepStatus 2 StProcessing,
      SetBook (Some (newBook structure chs raw)),
      UpdateStepStatus 1 StCompleted, UpdateStepStatus 2 StCompleted,
      SetLoadingState WRITING, UpdateStepStatus 3 StProcessing]"
  let ?pc = "processChapters env (newBook structure chs raw) raw"
  have "drop (length ?pre) (trace (?pre @ ?pc) s) = trace ?pc (exec ?pre s)"
    by (rule trace_drop)
  then have "drop 14 (trace (handleFileUpload env file) s) = trace ?pc (exec ?pre s)"
    unfolding upload_planned [OF p g c] by simp
  then have "s' \<in> set (trace ?pc (exec ?pre s))"
    using s' by simp
  moreover have "\<forall>a\<in>set ?pc. loopUpdate a"
    using processChapters_loopUpdate by blast
  ultimately have "loadingState s' = loadingState (exec ?pre s) \<or> loadingState s' = SUCCESS"
    using loopUpdate_trace by blast
  then show ?thesis by simp
qed

lemma exec_in_drop_trace: "n \<le> length as \<Longrightarrow> exec as s \<in> set (drop n (trace as s))"
proof (induction as arbitrary: n s)
  case Nil
  then show ?case by simp
next
  case (Cons a as)
  show ?case
  proof (cases n)
    case 0
    then show ?thesis
      using exec_in_trace [of "a # as" s] by simp
  next
    case (Suc m)
    then show ?thesis
      using Cons.IH [of m "applyAction a s"] Cons.prems by simp
  qed
qed

section \<open>Claim C1: a failed chapter does not stop the run\<close>



section \<open>Claim C2: one chapter at a time\<close>

text \<open>
  C2. Chapters are written strictly one after the other. In every state of a run of
  \<^verbatim>\<open>processChapters\<close>, started as \<^verbatim>\<open>handleFileUpload\<close> starts it (the Book on
  display is the book passed, all of its chapters pending) and wherever the cover
  request settles, at most one chapter has
  status generating, and a chapter i > 0 that is generating, completed or in error has a
  predecessor i-1 that is completed or in error: chapter i enters generating only after
  chapter i-1 has left it.
\<close>

theorem one_chapter_at_a_time:
  assumes "book s = Some currentBook" and "pendingBook currentBook"
    and "s' \<in> set (trace (writingRun env currentBook raw p) s)"
  shows "(statusAt s' i = Some ChGenerating \<and> statusAt s' j = Some ChGenerating \<longrightarrow> i = j)
       \<and> (0 < i \<and> (statusAt s' i = Some ChGenerating \<or> resolved (statusAt s' i)) \<longrightarrow>
            resolved (statusAt s' (i - 1)))"
proof -
  obtain cs where cs: "chapters currentBook = map Some cs"
    and pend: "\<forall>c\<in>set cs. status_ch c = ChPending \<and> content c = Some ''''"
    using assms(2) by (rule pendingBook_slots)
  obtain k g where kg: "k \<le> length cs" "g \<longrightarrow> k < length cs"
    and ch: "map_option chapters (book s') =
               Some (settleAll env raw (metadata currentBook) 0 (take k cs) @ current g (drop k cs))"
    using run_states [OF assms(1) cs assms(3)] by blast
  note st = stage_status(1) [OF ch kg(1)]
  have p: "status_ch (cs ! n) = ChPending" if "n < length cs" for n
    using pend that by simp
  have gen: "n = k \<and> g" if "statusAt s' n = Some ChGenerating" for n
    using that st [of n] p [of n]
    by (cases "writeCall env raw (metadata currentBook) n (cs ! n)")
       (simp_all add: settle_status split: if_splits)
  have res: "n < k" if "resolved (statusAt s' n)" for n
    using that st [of n] p [of n] by (simp add: resolved_def split: if_splits)
  have early: "resolved (statusAt s' n)" if "n < k" for n
    using that st [of n] kg(1)
    by (cases "writeCall env raw (metadata currentBook) n (cs ! n)")
       (simp_all add: settle_status resolved_def)
  have "i = j" if "statusAt s' i = Some ChGenerating" "statusAt s' j = Some ChGenerating"
    using gen [OF that(1)] gen [OF that(2)] by simp
  moreover have "resolved (statusAt s' (i - 1))"
    if "0 < i" "statusAt s' i = Some ChGenerating \<or> resolved (statusAt s' i)"
  proof -
    have "i \<le> k" using that(2) gen [of i] res [of i] by auto
    then show ?thesis using that(1) early [of "i - 1"] by simp
  qed
  ultimately show ?thesis by blast
qed

theorem one_chapter_at_a_time_witness:
  "book sampleWriting = Some sampleBook \<and> pendingBook sampleBook
   \<and> exec (take 6 (writingRun sampleServices sampleBook ''Low water. High water.'' 4)) sampleWriting
       \<in> set (trace (writingRun sampleServices sampleBook ''Low water. High water.'' 4) sampleWriting)
   \<and> statusAt (exec (take 6 (writingRun sampleServices sampleBook ''Low water. High water.'' 4))
                 sampleWriting) 1 = Some ChGenerating
   \<and> resolved (statusAt (exec (take 6 (writingRun sampleServices sampleBook
                                          ''Low water. High water.'' 4)) sampleWriting) 0)"
proof -
  let ?run = "writingRun sampleServices sampleBook ''Low water. High water.'' 4"
  have m: "exec (take 6 ?run) sampleWriting \<in> set (trace ?run sampleWriting)"
    by (rule exec_take_in_trace)
  have g: "statusAt (exec (take 6 ?run) sampleWriting) 1 = Some ChGenerating"
    unfolding sample_run by (simp add: sample_eval)
  show ?thesis
    using one_chapter_at_a_time [OF sampleWriting_book sampleBook_pending m, of 1 1]
      sampleWriting_book sampleBook_pending m g
    by simp
qed

section \<open>Claim C3: the abort signal\<close>




section \<open>Claim C4: a new upload during a run\<close>

text \<open>
  C4, as amended. A new upload cannot start while a run is writing: the upload control
  is rendered only in stage IDLE, and from the first update of a run on the stage is not
  IDLE; once writing has begun the stage is WRITING or SUCCESS, in which the component
  shows the editor and neither the upload control nor the button that leads back to
  IDLE. \<^verbatim>\<open>handleFileUpload\<close> itself replaces stage and steps (PARSING, and the
  initial steps with the first in progress) and the Book, first by null and, once planning
  has succeeded and the chapters have been taken from the outline, by a Book built from
  the new outline alone: one pending chapter of empty content per element of the
  outline's array of chapters, no cover. It does not stop an earlier writing
  loop. An update of such a loop is dropped while the Book is null; applied to a state
  that has a Book, it is written into that Book at the chapter's index.
\<close>

theorem new_upload_replaces_book:
  "(\<forall>s'\<in>set (tl (trace (handleFileUpload env file) s)). \<not> showsFileUpload s')
   \<and> book (exec (take 3 (handleFileUpload env file)) s) = None
   \<and> loadingState (exec (take 5 (handleFileUpload env file)) s) = PARSING
   \<and> steps (exec (take 5 (handleFileUpload env file)) s) =
       [\<lparr>label = ''Reading manuscript'', status = StProcessing\<rparr>,
        \<lparr>label = ''Analyzing structure & removing duplicates'', status = StPending\<rparr>,
        \<lparr>label = ''Planning chapters (Table of Contents)'', status = StPending\<rparr>,
        \<lparr>label = ''Writing content chapter by chapter'', status = StPending\<rparr>]
   \<and> (parseDocx env file = Inr raw
        \<and> generateBookStructure (planModel env) raw (name_f file) = Inr structure
        \<and> newChapters (typeError env) structure = Inr chs \<longrightarrow>
        book (exec (take 10 (handleFileUpload env file)) s) = Some (newBook structure chs raw)
        \<and> pendingBook (newBook structure chs raw)
        \<and> coverUrl (newBook structure chs raw) = None
        \<and> length (chapters (newBook structure chs raw)) =
            (case property ''chapters'' structure of Some (JArray xs) \<Rightarrow> length xs | _ \<Rightarrow> 0)
        \<and> (\<forall>s'\<in>set (drop 14 (trace (handleFileUpload env file) s)).
              showEditor s' \<and> \<not> showsFileUpload s' \<and> \<not> showsTryAgain s'))
   \<and> (book t = None \<longrightarrow>
        book (applyAction (MarkGenerating i) t) = None
        \<and> book (applyAction (MarkCompleted i w) t) = None
        \<and> book (applyAction (MarkError i) t) = None
        \<and> book (applyAction (SetCoverUrl u) t) = None)
   \<and> (book t \<noteq> None \<longrightarrow>
        statusAt (applyAction (MarkGenerating i) t) i = Some ChGenerating
        \<and> statusAt (applyAction (MarkCompleted i w) t) i = Some ChCompleted
        \<and> contentAt (applyAction (MarkCompleted i w) t) i = Some w
        \<and> statusAt (applyAction (MarkError i) t) i = Some ChError
        \<and> contentAt (applyAction (MarkError i) t) i = Some errorPlaceholder)"
proof -
  let ?acts = "handleFileUpload env file"
  have hidden: "\<forall>s'\<in>set (tl (trace ?acts s)). \<not> showsFileUpload s'"
  proof
    fix s'
    assume "s' \<in> set (tl (trace ?acts s))"
    then have in_rest: "s' \<in> set (trace (tl ?acts) (applyAction (SetLoadingState PARSING) s))"
      using upload_head [of env "file"] by (metis list.sel(3) trace.simps(2))
    have no_idle: "\<forall>a\<in>set (tl ?acts). a \<noteq> SetLoadingState IDLE"
      using upload_no_idle [of _ env "file"] upload_head [of env "file"]
      by (metis list.set_intros(2))
    have "loadingState s' \<noteq> IDLE"
      by (rule no_idle_trace [OF no_idle _ in_rest]) simp
    then show "\<not> showsFileUpload s'"
      by (simp add: showsFileUpload_def)
  qed
  have reset: "book (exec (take 3 ?acts) s) = None"
    by (simp add: handleFileUpload_def)
  have restart: "loadingState (exec (take 5 ?acts) s) = PARSING
   \<and> steps (exec (take 5 ?acts) s) =
       [\<lparr>label = ''Reading manuscript'', status = StProcessing\<rparr>,
        \<lparr>label = ''Analyzing structure & removing duplicates'', status = StPending\<rparr>,
        \<lparr>label = ''Planning chapters (Table of Contents)'', status = StPending\<rparr>,
        \<lparr>label = ''Writing content chapter by chapter'', status = StPending\<rparr>]"
    by (simp add: handleFileUpload_def INITIAL_STEPS_def updateStepStatus_four)
  have fresh: "book (exec (take 10 ?acts) s) = Some (newBook structure chs raw)
        \<and> pendingBook (newBook structure chs raw)
        \<and> coverUrl (newBook structure chs raw) = None
        \<and> length (chapters (newBook structure chs raw)) =
            (case property ''chapters'' structure of Some (JArray xs) \<Rightarrow> length xs | _ \<Rightarrow> 0)
        \<and> (\<forall>s'\<in>set (drop 14 (trace (handleFileUpload env file) s)).
              showEditor s' \<and> \<not> showsFileUpload s' \<and> \<not> showsTryAgain s')"
    if p: "parseDocx env file = Inr raw"
      and g: "generateBookStructure (planModel env) raw (name_f file) = Inr structure"
      and c: "newChapters (typeError env) structure = Inr chs"
  proof -
    have "book (exec (take 10 ?acts) s) = Some (newBook structure chs raw)"
      unfolding upload_planned [OF p g c] by simp
    moreover have "coverUrl (newBook structure chs raw) = None"
      by (simp add: newBook_def)
    moreover have "length (chapters (newBook structure chs raw)) =
            (case property ''chapters'' structure of Some (JArray xs) \<Rightarrow> length xs | _ \<Rightarrow> 0)"
      using c
      by (auto simp add: newBook_def newChapters_def split: json.splits option.splits if_splits)
    moreover have "\<forall>s'\<in>set (drop 14 (trace (handleFileUpload env file) s)).
              showEditor s' \<and> \<not> showsFileUpload s' \<and> \<not> showsTryAgain s'"
    proof
      fix s'
      assume "s' \<in> set (drop 14 (trace (handleFileUpload env file) s))"
      then have "loadingState s' = WRITING \<or> loadingState s' = SUCCESS"
        by (rule upload_writing_states [OF p g c])
      then show "showEditor s' \<and> \<not> showsFileUpload s' \<and> \<not> showsTryAgain s'"
        by (auto simp add: showEditor_def showsFileUpload_def showsTryAgain_def)
    qed
    ultimately show ?thesis
      using newBook_pending [OF c] by simp
  qed
  have null: "book (applyAction (MarkGenerating i) t) = None
        \<and> book (applyAction (MarkCompleted i w) t) = None
        \<and> book (applyAction (MarkError i) t) = None
        \<and> book (applyAction (SetCoverUrl u) t) = None"
    if "book t = None"
    using stale_on_null [OF that] by simp
  have written: "statusAt (applyAction (MarkGenerating i) t) i = Some ChGenerating
        \<and> statusAt (applyAction (MarkCompleted i w) t) i = Some ChCompleted
        \<and> contentAt (applyAction (MarkCompleted i w) t) i = Some w
        \<and> statusAt (applyAction (MarkError i) t) i = Some ChError
        \<and> contentAt (applyAction (MarkError i) t) i = Some errorPlaceholder"
    if nb: "book t \<noteq> None"
  proof -
    obtain b where "book t = Some b"
      using nb by blast
    then show ?thesis
      using stale_on_book by simp
  qed
  show ?thesis
    using hidden reset restart fresh null written by blast
qed

theorem new_upload_replaces_book_witness:
  "\<not> showsFileUpload (exec (handleFileUpload sampleServices sampleFile) initialApp)
   \<and> book (exec (take 3 (handleFileUpload sampleServices sampleFile)) initialApp) = None
   \<and> parseDocx sampleServices sampleFile = Inr ''Low water. High water.''
   \<and> generateBookStructure (planModel sampleServices) ''Low water. High water.''
       (name_f sampleFile) = Inr samplePlan
   \<and> newChapters (typeError sampleServices) samplePlan = Inr (chapters sampleBook)
   \<and> book (exec (take 10 (handleFileUpload sampleServices sampleFile)) initialApp)
       = Some sampleBook
   \<and> length (chapters sampleBook) = 3
   \<and> showEditor (exec (handleFileUpload sampleServices sampleFile) initialApp)
   \<and> \<not> showsTryAgain (exec (handleFileUpload sampleServices sampleFile) initialApp)
   \<and> book initialApp = None
   \<and> book (applyAction (MarkCompleted 0 ''The water left.'') initialApp) = None
   \<and> book sampleWriting \<noteq> None
   \<and> contentAt (applyAction (MarkCompleted 0 ''The water left.'') sampleWriting) 0
       = Some ''The water left.''"
proof -
  let ?acts = "handleFileUpload sampleServices sampleFile"
  have ne: "?acts \<noteq> []"
    by (simp add: handleFileUpload_def)
  have m: "exec ?acts initialApp \<in> set (tl (trace ?acts initialApp))"
    by (rule exec_in_tl_trace [OF ne])
  have m': "exec ?acts initialApp \<in> set (drop 14 (trace ?acts initialApp))"
    by (rule exec_in_drop_trace) (simp add: sample_upload)
  have n: "book initialApp = None"
    by (simp add: initialApp_def)
  have b: "book sampleWriting \<noteq> None"
    by (simp add: sampleWriting_def)
  have l: "(case property ''chapters'' samplePlan of Some (JArray xs) \<Rightarrow> length xs | _ \<Rightarrow> 0) = 3"
    by (simp add: samplePlan_def)
  have c: "newChapters (typeError sampleServices) samplePlan = Inr (chapters sampleBook)"
    by (rule sample_chapters)
  show ?thesis
    using new_upload_replaces_book [of sampleServices sampleFile initialApp
        "''Low water. High water.''" samplePlan "chapters sampleBook" initialApp 0
        "''The water left.''"]
      new_upload_replaces_book [of sampleServices sampleFile initialApp
        "''Low water. High water.''" samplePlan "chapters sampleBook" sampleWriting 0
        "''The water left.''"]
      m m' n b l c sample_parse sample_plan sample_newBook
    by simp
qed

theorem stale_update_counterexample:
  "loadingState firstWriting = WRITING
   \<and> take 2 (drop 17 (handleFileUpload sampleServices sampleFile))
       = [MarkCompleted 0 ''The water left.'', MarkGenerating 1]
   \<and> loadingState secondStarted = WRITING
   \<and> map_option (\<lambda>b. map (map_option id_ch) (chapters b)) (book secondStarted)
       = Some [Some (Some (JString ''n1''))]
   \<and> contentAt (exec (take 2 (drop 17 (handleFileUpload sampleServices sampleFile)))
                  secondStarted) 0 = Some ''The water left.''
   \<and> statusAt (exec (take 2 (drop 17 (handleFileUpload sampleServices sampleFile)))
                 secondStarted) 1 = Some ChGenerating"
  unfolding firstWriting_def secondStarted_def sample_upload second_upload
  by (simp add: secondBook_def markGenerating_def markCompleted_def
        spreadStatus_def spreadStatusContent_def arrayGet_def arraySet_def statusAt_def
        contentAt_def Let_def)

section \<open>Claim C5: what the planner accepts\<close>




section \<open>Claim C6: the life of a chapter\<close>

text \<open>
  C6, as amended. In every run of \<^verbatim>\<open>processChapters\<close>, started as
  \<^verbatim>\<open>handleFileUpload\<close> starts it (the Book on display is the book passed, all of its
  chapters pending with empty content) and wherever the cover request settles, an update leaves the status of a chapter as it is or moves it from pending to
  generating or from generating to completed or error, so that a status never goes back.
  In every state of the run the content of a chapter is empty while its status is pending
  or generating, is the fixed placeholder when its status is error (and then the writer's
  call had failed), and is the text the writer returned when its status is completed:
  that text may be empty, and may equal the placeholder.
\<close>

theorem chapter_lifecycle:
  assumes "book s = Some currentBook" and "pendingBook currentBook"
  shows "successively (\<lambda>s1 s2. \<forall>j. legalMove (statusAt s1 j) (statusAt s2 j))
           (trace (writingRun env currentBook raw p) s)
       \<and> (\<forall>s'\<in>set (trace (writingRun env currentBook raw p) s). \<forall>j c.
             j < length (chapters currentBook) \<and> chapters currentBook ! j = Some c \<longrightarrow>
             (case statusAt s' j of
                None \<Rightarrow> False
              | Some ChPending \<Rightarrow> contentAt s' j = Some ''''
              | Some ChGenerating \<Rightarrow> contentAt s' j = Some ''''
              | Some ChCompleted \<Rightarrow>
                  (\<exists>t. writeCall env raw (metadata currentBook) j c = Inr t
                       \<and> contentAt s' j = Some t)
              | Some ChError \<Rightarrow>
                  (\<exists>e. writeCall env raw (metadata currentBook) j c = Inl e)
                  \<and> contentAt s' j = Some errorPlaceholder))"
proof -
  obtain cs where cs: "chapters currentBook = map Some cs"
    and pend: "\<forall>c\<in>set cs. status_ch c = ChPending \<and> content c = Some ''''"
    using assms(2) by (rule pendingBook_slots)
  have moves: "successively (\<lambda>s1 s2. \<forall>j. legalMove (statusAt s1 j) (statusAt s2 j))
                 (trace (writingRun env currentBook raw p) s)"
    using pend by (intro run_moves [OF assms(1) cs]) simp
  have states: "case statusAt s' j of
                None \<Rightarrow> False
              | Some ChPending \<Rightarrow> contentAt s' j = Some ''''
              | Some ChGenerating \<Rightarrow> contentAt s' j = Some ''''
              | Some ChCompleted \<Rightarrow>
                  (\<exists>t. writeCall env raw (metadata currentBook) j c = Inr t
                       \<and> contentAt s' j = Some t)
              | Some ChError \<Rightarrow>
                  (\<exists>e. writeCall env raw (metadata currentBook) j c = Inl e)
                  \<and> contentAt s' j = Some errorPlaceholder"
    if s': "s' \<in> set (trace (writingRun env currentBook raw p) s)"
      and j: "j < length (chapters currentBook)" and c: "chapters currentBook ! j = Some c"
    for s' j c
  proof -
    obtain k g where kg: "k \<le> length cs" "g \<longrightarrow> k < length cs"
      and ch: "map_option chapters (book s') =
                 Some (settleAll env raw (metadata currentBook) 0 (take k cs) @ current g (drop k cs))"
      using run_states [OF assms(1) cs s'] by blast
    note st = stage_status [OF ch kg(1), of j]
    have jc: "j < length cs" "cs ! j = c"
      using j c cs by simp_all
    have p: "status_ch c = ChPending" "content c = Some ''''"
      using pend jc by auto
    let ?r = "writeCall env raw (metadata currentBook) j c"
    have sA: "statusAt s' j =
                Some (if j < k then (case ?r of Inl e \<Rightarrow> ChError | Inr t \<Rightarrow> ChCompleted)
                      else if j = k \<and> g then ChGenerating else ChPending)"
      using st(1) jc p by (simp add: settle_status)
    have cA: "contentAt s' j =
                Some (if j < k then (case ?r of Inl e \<Rightarrow> errorPlaceholder | Inr t \<Rightarrow> t) else '''')"
      using st(2) jc p by (simp add: settle_status)
    show ?thesis
      unfolding sA cA by (cases ?r) simp_all
  qed
  show ?thesis
    using moves states by blast
qed

theorem chapter_lifecycle_witness:
  "book sampleWriting = Some sampleBook \<and> pendingBook sampleBook
   \<and> successively (\<lambda>s1 s2. \<forall>j. legalMove (statusAt s1 j) (statusAt s2 j))
       (trace (writingRun sampleServices sampleBook ''Low water. High water.'' 4) sampleWriting)
   \<and> statusAt (exec (writingRun sampleServices sampleBook ''Low water. High water.'' 4)
                 sampleWriting) 1 = Some ChError
   \<and> contentAt (exec (writingRun sampleServices sampleBook ''Low water. High water.'' 4)
                  sampleWriting) 1 = Some errorPlaceholder"
proof -
  let ?run = "writingRun sampleServices sampleBook ''Low water. High water.'' 4"
  have m: "exec ?run sampleWriting \<in> set (trace ?run sampleWriting)"
    by (rule exec_in_trace)
  have e: "statusAt (exec ?run sampleWriting) 1 = Some ChError"
    by (rule sample_final)
  have n: "1 < length (chapters sampleBook) \<and> chapters sampleBook ! 1 =
             Some \<lparr>id_ch = Some (JString ''c2''), title_ch = Some (JString ''Flow''),
         description = Some (JString ''Middle''),
                   content = Some '''', status_ch = ChPending, pageStart = Some 16\<rparr>"
    by (simp add: sampleBook_chapters)
  note t = chapter_lifecycle [OF sampleWriting_book sampleBook_pending,
      of sampleServices "''Low water. High water.''" 4]
  from t have "successively (\<lambda>s1 s2. \<forall>j. legalMove (statusAt s1 j) (statusAt s2 j))
                 (trace ?run sampleWriting)"
    by (rule conjunct1)
  moreover from t m n e have "contentAt (exec ?run sampleWriting) 1 = Some errorPlaceholder"
    by fastforce
  ultimately show ?thesis
    using sampleWriting_book sampleBook_pending e by simp
qed

theorem empty_completed_chapter_counterexample:
  "statusAt (exec (writingRun sampleServices sampleBook ''Low water. High water.'' 4)
              sampleWriting) 2 = Some ChCompleted
   \<and> contentAt (exec (writingRun sampleServices sampleBook ''Low water. High water.'' 4)
                  sampleWriting) 2 = Some ''''"
  unfolding sample_run by (simp add: sample_eval)

section \<open>Claim C7: a failed extraction or planning ends the run\<close>



section \<open>Claim C8: a failed cover\<close>



section \<open>Claim C9: the steps after a failed upload\<close>

text \<open>
  C9. Whenever \<^verbatim>\<open>handleFileUpload\<close> fails, the error handler marks step 0
  (``Reading manuscript'') as error, whether text extraction or structure planning
  failed. After an extraction failure the other three steps are still pending. After
  a planning failure steps 1 and 2, the two steps of the planning stage, are left in
  status processing and step 3 is pending: no planning step is marked as error. The
  steps are the same when planning has returned a value from which the handler cannot
  take the chapters.
\<close>

theorem failed_upload_steps:
  "(parseDocx env file = Inl err \<longrightarrow>
      steps (exec (handleFileUpload env file) s) =
        [\<lparr>label = ''Reading manuscript'', status = StError\<rparr>,
         \<lparr>label = ''Analyzing structure & removing duplicates'', status = StPending\<rparr>,
         \<lparr>label = ''Planning chapters (Table of Contents)'', status = StPending\<rparr>,
         \<lparr>label = ''Writing content chapter by chapter'', status = StPending\<rparr>])
   \<and> (parseDocx env file = Inr raw \<and>
        generateBookStructure (planModel env) raw (name_f file) = Inl err \<longrightarrow>
      steps (exec (handleFileUpload env file) s) =
        [\<lparr>label = ''Reading manuscript'', status = StError\<rparr>,
         \<lparr>label = ''Analyzing structure & removing duplicates'', status = StProcessing\<rparr>,
         \<lparr>label = ''Planning chapters (Table of Contents)'', status = StProcessing\<rparr>,
         \<lparr>label = ''Writing content chapter by chapter'', status = StPending\<rparr>])
   \<and> (parseDocx env file = Inr raw \<and>
        generateBookStructure (planModel env) raw (name_f file) = Inr structure \<and>
        newChapters (typeError env) structure = Inl err \<longrightarrow>
      steps (exec (handleFileUpload env file) s) =
        [\<lparr>label = ''Reading manuscript'', status = StError\<rparr>,
         \<lparr>label = ''Analyzing structure & removing duplicates'', status = StProcessing\<rparr>,
         \<lparr>label = ''Planning chapters (Table of Contents)'', status = StProcessing\<rparr>,
         \<lparr>label = ''Writing content chapter by chapter'', status = StPending\<rparr>])"
  by (simp add: handleFileUpload_def catchUpload_def INITIAL_STEPS_def updateStepStatus_four)

theorem failed_upload_steps_witness:
  "parseDocx (sampleServices\<lparr>mammoth := None\<rparr>) sampleFile
     = Inl (Error (Some ''Mammoth.js library not loaded''))
   \<and> map status (steps (exec (handleFileUpload (sampleServices\<lparr>mammoth := None\<rparr>) sampleFile)
                           initialApp))
     = [StError, StPending, StPending, StPending]
   \<and> parseDocx (sampleServices\<lparr>planModel := \<lambda>r. Inr NoText\<rparr>) sampleFile
     = Inr ''Low water. High water.''
   \<and> generateBookStructure (\<lambda>r. Inr NoText) ''Low water. High water.'' (name_f sampleFile)
     = Inl (Error (Some ''No response from AI''))
   \<and> map status (steps (exec (handleFileUpload (sampleServices\<lparr>planModel := \<lambda>r. Inr NoText\<rparr>)
                                  sampleFile) initialApp))
     = [StError, StProcessing, StProcessing, StPending]"
proof -
  have x: "parseDocx (sampleServices\<lparr>mammoth := None\<rparr>) sampleFile
             = Inl (Error (Some ''Mammoth.js library not loaded''))"
    by (simp add: parseDocx_def sampleServices_def)
  have p: "parseDocx (sampleServices\<lparr>planModel := \<lambda>r. Inr NoText\<rparr>) sampleFile
             = Inr ''Low water. High water.''"
    by (simp add: parseDocx_def sampleServices_def)
  have g: "generateBookStructure (planModel (sampleServices\<lparr>planModel := \<lambda>r. Inr NoText\<rparr>))
             ''Low water. High water.'' (name_f sampleFile)
             = Inl (Error (Some ''No response from AI''))"
    by (simp add: generateBookStructure_def)
  show ?thesis
    using x p g
      failed_upload_steps [of "sampleServices\<lparr>mammoth := None\<rparr>" sampleFile
        "Error (Some ''Mammoth.js library not loaded'')" initialApp]
      failed_upload_steps [of "sampleServices\<lparr>planModel := \<lambda>r. Inr NoText\<rparr>" sampleFile
        "Error (Some ''No response from AI'')" initialApp "''Low water. High water.''"]
    by simp
qed

section \<open>Claim C10: which upload path checks the file type\<close>

text \<open>
  C10. Only the drag-and-drop handler of the upload control looks at the file type: a
  dropped file whose MIME type is not the .docx type raises an alert and
  \<^verbatim>\<open>onFileSelect\<close> is not called, so the pipeline does not start. The handler of the
  file input passes the selected file to \<^verbatim>\<open>onFileSelect\<close> whatever its type.
\<close>

theorem upload_type_check:
  "handleDrop False (Some (file # others)) =
     (if type_f file = docxType then OnFileSelect file
      else Alert ''Please upload a valid .docx Word file.'')
   \<and> handleChange False (Some (file # others)) = OnFileSelect file
   \<and> (handleDrop disabled files = OnFileSelect file' \<longrightarrow> type_f file' = docxType)"
  by (auto simp add: handleDrop_def handleChange_def split: option.splits list.splits if_splits)

theorem upload_type_check_witness:
  "handleDrop False (Some [textFile]) = Alert ''Please upload a valid .docx Word file.''
   \<and> handleChange False (Some [textFile]) = OnFileSelect textFile
   \<and> handleDrop False (Some [sampleFile]) = OnFileSelect sampleFile
   \<and> type_f sampleFile = docxType"
  using upload_type_check [of textFile "[]" False "Some [sampleFile]" sampleFile]
    upload_type_check [of sampleFile "[]"]
  by (simp add: textFile_def sampleFile_def docxType_def)

end
